theory Spec2Isabelle
  imports Main "HOL-Library.Sublist"
begin

section \<open>Python strings\<close>

text \<open>
  A Python \<^verbatim>\<open>str\<close> is modelled as the list of its code points. The type \<^typ>\<open>char\<close> has 256
  elements, so the model covers the strings whose code points lie below 256; \<open>of_char c\<close> is
  the code point of \<open>c\<close>. On that range the character classes used by \<^verbatim>\<open>src/security.py\<close>
  (\<^verbatim>\<open>str.lower\<close>, \<^verbatim>\<open>str.strip\<close>, and \<^verbatim>\<open>\d\<close>, \<^verbatim>\<open>\s\<close> of the module \<^verbatim>\<open>re\<close>) are finite tables,
  written out below. The functions are first defined for an interpreter without bounds;
  the recursion depth and the cap on the number of digits of an integer converted to text
  are the subject of the section on the limits of the interpreter.
\<close>

datatype error = IndexError | ValueError | RecursionError

definition and_then :: "error + 'a \<Rightarrow> ('a \<Rightarrow> error + 'b) \<Rightarrow> error + 'b" where
  \<comment> \<open>sequencing of two steps, the second skipped when the first raises\<close>
  "and_then r f = (case r of Inl e \<Rightarrow> Inl e | Inr x \<Rightarrow> f x)"

definition py_len :: "string \<Rightarrow> int" where
  "py_len s = int (length s)"

definition py_getitem :: "string \<Rightarrow> int \<Rightarrow> error + char" where
  \<comment> \<open>\<^verbatim>\<open>s[i]\<close>: a negative index counts from the end, an index out of range raises\<close>
  "py_getitem s i =
     (let j = (if i < 0 then py_len s + i else i)
      in if 0 \<le> j \<and> j < py_len s then Inr (s ! nat j) else Inl IndexError)"

definition py_slice_from :: "string \<Rightarrow> int \<Rightarrow> string" where
  \<comment> \<open>\<^verbatim>\<open>s[i:]\<close>: bounds are clipped, a slice never raises\<close>
  "py_slice_from s i = drop (nat (if i < 0 then max 0 (py_len s + i) else i)) s"

definition py_slice_to :: "string \<Rightarrow> int \<Rightarrow> string" where
  \<comment> \<open>\<^verbatim>\<open>s[:i]\<close>\<close>
  "py_slice_to s i = take (nat (if i < 0 then max 0 (py_len s + i) else i)) s"

definition py_repeat :: "string \<Rightarrow> int \<Rightarrow> string" where
  \<comment> \<open>\<^verbatim>\<open>s * n\<close>: the empty string when \<open>n\<close> is not positive\<close>
  "py_repeat s n = concat (replicate (nat n) s)"

fun py_in :: "string \<Rightarrow> string \<Rightarrow> bool" where
  \<comment> \<open>\<^verbatim>\<open>a in b\<close> on strings: \<open>a\<close> occurs in \<open>b\<close> as a contiguous run\<close>
  "py_in a [] = (a = [])"
| "py_in a (c # cs) = (prefix a (c # cs) \<or> py_in a cs)"

definition is_space :: "char \<Rightarrow> bool" where
  \<comment> \<open>\<^verbatim>\<open>str.isspace\<close> and the class \<^verbatim>\<open>\s\<close> of \<^verbatim>\<open>re\<close> on code points below 256\<close>
  "is_space c =
     (let n = (of_char c :: nat)
      in (9 \<le> n \<and> n \<le> 13) \<or> (28 \<le> n \<and> n \<le> 32) \<or> n = 133 \<or> n = 160)"

definition is_digit :: "char \<Rightarrow> bool" where
  \<comment> \<open>the class \<^verbatim>\<open>\d\<close> of \<^verbatim>\<open>re\<close> on code points below 256: the digits 0 to 9\<close>
  "is_digit c = (let n = (of_char c :: nat) in 48 \<le> n \<and> n \<le> 57)"

definition lower_char :: "char \<Rightarrow> char" where
  \<comment> \<open>A to Z, and the capital letters of the range 192 to 222 (215 is the multiplication sign)\<close>
  "lower_char c =
     (let n = (of_char c :: nat)
      in if (65 \<le> n \<and> n \<le> 90) \<or> (192 \<le> n \<and> n \<le> 222 \<and> n \<noteq> 215)
         then char_of (n + 32) else c)"

definition lower :: "string \<Rightarrow> string" where
  \<comment> \<open>\<^verbatim>\<open>str.lower\<close>\<close>
  "lower s = map lower_char s"

definition rsplit1 :: "string \<Rightarrow> char \<Rightarrow> string list" where
  \<comment> \<open>\<^verbatim>\<open>s.rsplit(sep, 1)\<close> for a separator of one character: at most one split, at the
      last occurrence of the separator\<close>
  "rsplit1 s sep =
     (let after_rev = takeWhile (\<lambda>c. c \<noteq> sep) (rev s);
          rest = dropWhile (\<lambda>c. c \<noteq> sep) (rev s)
      in case rest of [] \<Rightarrow> [s] | _ # before_rev \<Rightarrow> [rev before_rev, rev after_rev])"

definition unpack2 :: "string list \<Rightarrow> error + string \<times> string" where
  \<comment> \<open>\<^verbatim>\<open>a, b = xs\<close>: raises unless \<open>xs\<close> has exactly two elements\<close>
  "unpack2 xs = (case xs of [a, b] \<Rightarrow> Inr (a, b) | _ \<Rightarrow> Inl ValueError)"

definition re_sub_class :: "(char \<Rightarrow> bool) \<Rightarrow> string \<Rightarrow> string \<Rightarrow> string" where
  \<comment> \<open>\<^verbatim>\<open>re.sub(p, repl, s)\<close> for a pattern \<open>p\<close> that is one character class: every
      character of the class is replaced by \<open>repl\<close>\<close>
  "re_sub_class cls repl s = concat (map (\<lambda>c. if cls c then repl else [c]) s)"

definition sep_class :: "char \<Rightarrow> bool" where
  \<comment> \<open>the class \<^verbatim>\<open>[-\s]\<close>\<close>
  "sep_class c = (c = CHR ''-'' \<or> is_space c)"


section \<open>Python values\<close>

text \<open>
  The structured values that \<^verbatim>\<open>mask_dict\<close> walks: \<^verbatim>\<open>None\<close>, booleans, integers, strings,
  lists and dictionaries with string keys. A dictionary is the list of its items in
  insertion order (its keys are distinct, see \<open>wf_value\<close> below). \<open>VOther s r\<close> is a scalar of
  any other type (a float, a date), known by what \<^verbatim>\<open>str\<close> and \<^verbatim>\<open>repr\<close> return for it.
\<close>

datatype pyval =
    VNone
  | VBool bool
  | VInt int
  | VStr string
  | VOther string string
  | VList "pyval list"
  | VDict "(string \<times> pyval) list"

definition digit_char :: "nat \<Rightarrow> char" where
  "digit_char d = ''0123456789abcdef'' ! d"

fun digits_of :: "nat \<Rightarrow> string" where
  \<comment> \<open>the decimal digits of a natural number\<close>
  "digits_of n =
     (if n < 10 then [digit_char n] else digits_of (n div 10) @ [digit_char (n mod 10)])"

declare digits_of.simps [simp del]

definition str_of_int :: "int \<Rightarrow> string" where
  \<comment> \<open>\<^verbatim>\<open>str(i)\<close> for an integer\<close>
  "str_of_int i = (if i < 0 then CHR ''-'' # digits_of (nat (- i)) else digits_of (nat i))"

definition hex2 :: "nat \<Rightarrow> string" where
  "hex2 n = [digit_char (n div 16), digit_char (n mod 16)]"

definition repr_char :: "char \<Rightarrow> char \<Rightarrow> string" where
  \<comment> \<open>one character inside \<^verbatim>\<open>repr\<close> of a string quoted with \<open>q\<close>: the quote and the backslash
      are escaped, tab, newline and carriage return have their letters, every other code
      point that is not printable is written \<^verbatim>\<open>\xNN\<close>\<close>
  "repr_char q c =
     (let n = (of_char c :: nat)
      in if c = q \<or> c = CHR 0x5C then [CHR 0x5C, c]
         else if n = 9 then [CHR 0x5C, CHR ''t'']
         else if n = 10 then [CHR 0x5C, CHR ''n'']
         else if n = 13 then [CHR 0x5C, CHR ''r'']
         else if n < 32 \<or> (127 \<le> n \<and> n \<le> 160) \<or> n = 173 then [CHR 0x5C, CHR ''x''] @ hex2 n
         else [c])"

definition repr_str :: "string \<Rightarrow> string" where
  \<comment> \<open>\<^verbatim>\<open>repr(s)\<close> for a string: single quotes, unless the string has a single quote and no
      double quote\<close>
  "repr_str s =
     (let q = (if CHR 0x27 \<in> set s \<and> CHR 0x22 \<notin> set s then CHR 0x22 else CHR 0x27)
      in [q] @ concat (map (repr_char q) s) @ [q])"

fun py_join :: "string \<Rightarrow> string list \<Rightarrow> string" where
  \<comment> \<open>\<^verbatim>\<open>sep.join(xs)\<close>\<close>
  "py_join sep [] = []"
| "py_join sep [x] = x"
| "py_join sep (x # y # ys) = x @ sep @ py_join sep (y # ys)"

fun py_repr :: "pyval \<Rightarrow> string" where
  "py_repr VNone = ''None''"
| "py_repr (VBool b) = (if b then ''True'' else ''False'')"
| "py_repr (VInt i) = str_of_int i"
| "py_repr (VStr s) = repr_str s"
| "py_repr (VOther s r) = r"
| "py_repr (VList xs) = ''['' @ py_join '', '' (map py_repr xs) @ '']''"
| "py_repr (VDict kvs) =
     ''{'' @ py_join '', '' (map (\<lambda>(k, v). repr_str k @ '': '' @ py_repr v) kvs) @ ''}''"

fun py_str :: "pyval \<Rightarrow> string" where
  \<comment> \<open>\<^verbatim>\<open>str(value)\<close>, line 97 of \<^verbatim>\<open>security.py\<close>: a string is itself, a list or a dictionary
      is written with the \<^verbatim>\<open>repr\<close> of its parts\<close>
  "py_str (VStr s) = s"
| "py_str (VOther s r) = s"
| "py_str v = py_repr v"


section \<open>The redaction strategies of \<^verbatim>\<open>DataMasker\<close>\<close>

text \<open>
  The five private methods of \<^verbatim>\<open>DataMasker\<close> (lines 37 to 70 of \<^verbatim>\<open>security.py\<close>). Each
  returns \<open>Inr\<close> of its string, or \<open>Inl\<close> of the error that an index read or the unpacking
  of \<^verbatim>\<open>rsplit\<close> would raise.
\<close>

definition mask_email :: "string \<Rightarrow> error + string" where
  "mask_email v =
     (if py_in ''@'' v then
        and_then (unpack2 (rsplit1 v CHR ''@'')) (\<lambda>(local, domain).
        and_then
          (if py_len local > 2 then
             and_then (py_getitem local 0) (\<lambda>a.
             and_then (py_getitem local (- 1)) (\<lambda>b.
             Inr ([a] @ py_repeat ''*'' (py_len local - 2) @ [b])))
           else Inr (py_repeat ''*'' (py_len local)))
          (\<lambda>masked_local. Inr (masked_local @ ''@'' @ domain)))
      else Inr v)"

definition mask_phone :: "string \<Rightarrow> error + string" where
  "mask_phone v =
     (let digits = re_sub_class sep_class [] v
      in if py_len digits \<ge> 4
         then Inr (py_slice_to digits 2 @ py_repeat ''*'' (py_len digits - 4)
                     @ py_slice_from digits (- 2))
         else Inr (py_repeat ''*'' (py_len digits)))"

definition mask_credit_card :: "string \<Rightarrow> error + string" where
  "mask_credit_card v =
     (let digits = re_sub_class sep_class [] v
      in if py_len digits \<ge> 4
         then Inr (py_repeat ''*'' (py_len digits - 4) @ py_slice_from digits (- 4))
         else Inr (py_repeat ''*'' (py_len digits)))"

definition mask_ssn :: "string \<Rightarrow> error + string" where
  "mask_ssn v = Inr (''***-**-'' @ py_slice_from (re_sub_class sep_class [] v) (- 4))"

definition mask_generic :: "string \<Rightarrow> error + string" where
  "mask_generic v =
     (if py_len v \<le> 2 then Inr (py_repeat ''*'' (py_len v))
      else
        and_then (py_getitem v 0) (\<lambda>a.
        and_then (py_getitem v (- 1)) (\<lambda>b.
        Inr ([a] @ py_repeat ''*'' (py_len v - 2) @ [b]))))"


section \<open>Patterns\<close>

text \<open>
  The four regular expressions of \<^verbatim>\<open>self.patterns\<close> are sequences of character classes, each
  with a repetition: \<open>Item cls lo hi\<close> is the class \<open>cls\<close> repeated at least \<open>lo\<close> and at most
  \<open>hi\<close> times (\<open>None\<close>: no upper bound), so that \<^verbatim>\<open>\d{2,4}\<close> is \<open>Item is_digit 2 (Some 4)\<close>,
  \<^verbatim>\<open>[-\s]?\<close> is \<open>Item sep_class 0 (Some 1)\<close> and \<^verbatim>\<open>[a-zA-Z]{2,}\<close> has \<open>lo = 2\<close> and \<open>hi = None\<close>.
  \<open>re_match p s\<close> is \<^verbatim>\<open>re.match(p, s)\<close> read as a truth value: the matcher tries the
  repetition counts of an item from the longest run down, and goes back to a shorter one
  when the rest of the pattern fails.
\<close>

datatype item = Item "char \<Rightarrow> bool" nat "nat option"

type_synonym pattern = "item list"

definition counts :: "nat \<Rightarrow> nat option \<Rightarrow> nat \<Rightarrow> nat list" where
  \<comment> \<open>the repetition counts to try, greedy first, when \<open>run\<close> characters of the class
      are available\<close>
  "counts lo hi run = rev [lo ..< Suc (case hi of None \<Rightarrow> run | Some h \<Rightarrow> min h run)]"

fun match_here :: "pattern \<Rightarrow> string \<Rightarrow> bool" where
  "match_here [] s = True"
| "match_here (Item cls lo hi # rest) s =
     list_ex (\<lambda>k. match_here rest (drop k s)) (counts lo hi (length (takeWhile cls s)))"

definition re_match :: "pattern \<Rightarrow> string \<Rightarrow> bool" where
  "re_match p s = match_here p s"

definition in_range :: "char \<Rightarrow> char \<Rightarrow> char \<Rightarrow> bool" where
  \<comment> \<open>a range \<^verbatim>\<open>lo-hi\<close> inside a character class\<close>
  "in_range lo hi c = ((of_char lo :: nat) \<le> of_char c \<and> (of_char c :: nat) \<le> of_char hi)"

definition email_pattern :: pattern where
  \<comment> \<open>\<^verbatim>\<open>[a-zA-Z0-9._%+-]+@[a-zA-Z0-9.-]+\.[a-zA-Z]{2,}\<close>\<close>
  "email_pattern =
     [Item (\<lambda>c. in_range CHR ''a'' CHR ''z'' c \<or> in_range CHR ''A'' CHR ''Z'' c
                \<or> in_range CHR ''0'' CHR ''9'' c \<or> c \<in> set ''._%+-'') 1 None,
      Item (\<lambda>c. c = CHR ''@'') 1 (Some 1),
      Item (\<lambda>c. in_range CHR ''a'' CHR ''z'' c \<or> in_range CHR ''A'' CHR ''Z'' c
                \<or> in_range CHR ''0'' CHR ''9'' c \<or> c \<in> set ''.-'') 1 None,
      Item (\<lambda>c. c = CHR ''.'') 1 (Some 1),
      Item (\<lambda>c. in_range CHR ''a'' CHR ''z'' c \<or> in_range CHR ''A'' CHR ''Z'' c) 2 None]"

definition phone_pattern :: pattern where
  \<comment> \<open>\<^verbatim>\<open>\d{2,4}[-\s]?\d{3,4}[-\s]?\d{3,4}\<close>\<close>
  "phone_pattern =
     [Item is_digit 2 (Some 4), Item sep_class 0 (Some 1),
      Item is_digit 3 (Some 4), Item sep_class 0 (Some 1),
      Item is_digit 3 (Some 4)]"

definition credit_card_pattern :: pattern where
  \<comment> \<open>\<^verbatim>\<open>\d{4}[-\s]?\d{4}[-\s]?\d{4}[-\s]?\d{4}\<close>\<close>
  "credit_card_pattern =
     [Item is_digit 4 (Some 4), Item sep_class 0 (Some 1),
      Item is_digit 4 (Some 4), Item sep_class 0 (Some 1),
      Item is_digit 4 (Some 4), Item sep_class 0 (Some 1),
      Item is_digit 4 (Some 4)]"

definition ssn_pattern :: pattern where
  \<comment> \<open>\<^verbatim>\<open>\d{3}[-\s]?\d{2}[-\s]?\d{4}\<close>\<close>
  "ssn_pattern =
     [Item is_digit 3 (Some 3), Item sep_class 0 (Some 1),
      Item is_digit 2 (Some 2), Item sep_class 0 (Some 1),
      Item is_digit 4 (Some 4)]"

type_synonym rule = "string \<times> pattern \<times> (string \<Rightarrow> error + string)"

definition patterns :: "rule list" where
  \<comment> \<open>\<^verbatim>\<open>self.patterns\<close>, lines 30 to 35: a dictionary, iterated in insertion order\<close>
  "patterns =
     [(''email'', email_pattern, mask_email),
      (''phone'', phone_pattern, mask_phone),
      (''credit_card'', credit_card_pattern, mask_credit_card),
      (''ssn'', ssn_pattern, mask_ssn)]"

text \<open>
  The state of a \<^verbatim>\<open>DataMasker\<close>, and the two fields of \<^verbatim>\<open>Settings\<close> (\<^verbatim>\<open>config.py\<close>) that it
  reads. \<open>masked_fields_csv\<close> is the setting \<^verbatim>\<open>masked_fields\<close>, a comma-separated string.
\<close>

record masker =
  masked_fields :: "string list"
  enabled :: bool

record settings =
  enable_data_masking :: bool
  masked_fields_csv :: string

fun split_on :: "char \<Rightarrow> string \<Rightarrow> string list" where
  \<comment> \<open>\<^verbatim>\<open>s.split(sep)\<close> for a separator of one character: the empty string gives one empty
      part\<close>
  "split_on sep [] = [[]]"
| "split_on sep (c # cs) =
     (if c = sep then [] # split_on sep cs
      else (case split_on sep cs of w # ws \<Rightarrow> (c # w) # ws | [] \<Rightarrow> [[c]]))"

definition strip :: "string \<Rightarrow> string" where
  \<comment> \<open>\<^verbatim>\<open>s.strip()\<close>\<close>
  "strip s = rev (dropWhile is_space (rev (dropWhile is_space s)))"

definition masked_fields_list :: "settings \<Rightarrow> string list" where
  \<comment> \<open>the property \<^verbatim>\<open>Settings.masked_fields_list\<close>, line 66 of \<^verbatim>\<open>config.py\<close>\<close>
  "masked_fields_list st = map (\<lambda>f. lower (strip f)) (split_on CHR '','' (masked_fields_csv st))"

definition DataMasker_init :: "settings \<Rightarrow> string list option \<Rightarrow> masker" where
  \<comment> \<open>\<^verbatim>\<open>DataMasker.__init__\<close>: \<^verbatim>\<open>masked_fields or settings.masked_fields_list\<close> takes the list
      of the settings when the argument is \<^verbatim>\<open>None\<close> and also when it is the empty list\<close>
  "DataMasker_init st mf =
     \<lparr> masked_fields =
         (case mf of None \<Rightarrow> masked_fields_list st
          | Some fs \<Rightarrow> if fs = [] then masked_fields_list st else fs),
       enabled = enable_data_masking st \<rparr>"

definition default_settings :: settings where
  \<comment> \<open>the defaults of the two fields in \<^verbatim>\<open>config.py\<close>\<close>
  "default_settings =
     \<lparr> enable_data_masking = True,
       masked_fields_csv = ''email,phone,ssn,credit_card,password'' \<rparr>"

fun apply_patterns :: "rule list \<Rightarrow> string \<Rightarrow> string \<Rightarrow> (error + string) option" where
  \<comment> \<open>the loop of lines 100 to 103: \<open>Some\<close> is the \<^verbatim>\<open>return\<close> inside the loop, \<open>None\<close> the
      loop running to its end\<close>
  "apply_patterns [] field_lower str_value = None"
| "apply_patterns ((pattern_name, pattern, mask_func) # rest) field_lower str_value =
     (if py_in pattern_name field_lower then
        (if re_match pattern str_value then Some (mask_func str_value)
         else apply_patterns rest field_lower str_value)
      else apply_patterns rest field_lower str_value)"

definition should_mask :: "masker \<Rightarrow> string \<Rightarrow> bool" where
  \<comment> \<open>\<^verbatim>\<open>any(masked in field_lower for masked in self.masked_fields)\<close>\<close>
  "should_mask m field_lower = list_ex (\<lambda>masked. py_in masked field_lower) (masked_fields m)"

definition mask_value :: "masker \<Rightarrow> string \<Rightarrow> pyval \<Rightarrow> error + pyval" where
  "mask_value m field_name v =
     (if \<not> enabled m \<or> v = VNone then Inr v
      else
        let field_lower = lower field_name in
        if \<not> should_mask m field_lower then Inr v
        else
          let str_value = py_str v in
          (case apply_patterns patterns field_lower str_value of
             Some r \<Rightarrow> and_then r (\<lambda>s. Inr (VStr s))
           | None \<Rightarrow> and_then (mask_generic str_value) (\<lambda>s. Inr (VStr s))))"

fun dict_set :: "(string \<times> pyval) list \<Rightarrow> string \<Rightarrow> pyval \<Rightarrow> (string \<times> pyval) list" where
  \<comment> \<open>\<^verbatim>\<open>result[k] = v\<close>: a new key goes to the end, a key already there keeps its place\<close>
  "dict_set [] k v = [(k, v)]"
| "dict_set ((k', v') # rest) k v =
     (if k' = k then (k, v) # rest else (k', v') # dict_set rest k v)"

text \<open>
  \<^verbatim>\<open>mask_dict\<close>, lines 108 to 128. \<open>mask_items_loop\<close> is its \<^verbatim>\<open>for\<close> loop over the items, with
  the dictionary built so far; \<open>mask_elements\<close> is the list comprehension of lines 122 to
  125, where an element that is a dictionary is masked as a record and every other element,
  a list included, goes to \<open>mask_value\<close> under the key of the list.
\<close>

function mask_dict :: "masker \<Rightarrow> (string \<times> pyval) list \<Rightarrow> error + (string \<times> pyval) list"
  and mask_items_loop ::
    "masker \<Rightarrow> (string \<times> pyval) list \<Rightarrow> (string \<times> pyval) list
       \<Rightarrow> error + (string \<times> pyval) list"
  and mask_elements :: "masker \<Rightarrow> string \<Rightarrow> pyval list \<Rightarrow> error + pyval list"
where
  "mask_dict m data = mask_items_loop m [] data"
| "mask_items_loop m result [] = Inr result"
| "mask_items_loop m result ((key, v) # rest) =
     and_then
       (case v of
          VDict d \<Rightarrow> and_then (mask_dict m d) (\<lambda>r. Inr (VDict r))
        | VList xs \<Rightarrow> and_then (mask_elements m key xs) (\<lambda>r. Inr (VList r))
        | _ \<Rightarrow> mask_value m key v)
       (\<lambda>w. mask_items_loop m (dict_set result key w) rest)"
| "mask_elements m key [] = Inr []"
| "mask_elements m key (item # rest) =
     and_then
       (case item of
          VDict d \<Rightarrow> and_then (mask_dict m d) (\<lambda>r. Inr (VDict r))
        | _ \<Rightarrow> mask_value m key item)
       (\<lambda>w. and_then (mask_elements m key rest) (\<lambda>ws. Inr (w # ws)))"
  by pat_completeness auto
termination
  by (relation "measure (\<lambda>x. case x of
        Inl (m, data) \<Rightarrow> Suc (size_list (size_prod (\<lambda>_. 0) size) data)
      | Inr (Inl (m, result, data)) \<Rightarrow> size_list (size_prod (\<lambda>_. 0) size) data
      | Inr (Inr (m, key, xs)) \<Rightarrow> size_list size xs)") auto


section \<open>Limits of the interpreter\<close>

text \<open>
  The definitions above describe the functions on an interpreter without bounds. CPython
  3.11 has two bounds that the engine can meet. \<^verbatim>\<open>str\<close> of an integer of more than 4300
  decimal digits raises \<^verbatim>\<open>ValueError\<close>, also when the integer lies in a list or a
  dictionary that is converted. And each level of nesting of a value needs a level of the
  interpreter's stack, in the recursion of \<^verbatim>\<open>mask_dict\<close> as in the conversion of a nested
  list by \<^verbatim>\<open>str\<close>; a call that would exceed the recursion limit raises \<^verbatim>\<open>RecursionError\<close>.
  The functions of this section are those of the source with these two errors as branches.
  Their first argument \<open>frames\<close> is the number of levels that the stack still allows when
  the function is called; the calls that do not recurse need a fixed number of frames,
  which this budget leaves aside.
\<close>

definition max_str_digits :: nat where
  \<comment> \<open>the default of \<^verbatim>\<open>sys.int_info.default_max_str_digits\<close>\<close>
  "max_str_digits = 4300"

definition recursion_limit :: nat where
  \<comment> \<open>the default of \<^verbatim>\<open>sys.getrecursionlimit()\<close>\<close>
  "recursion_limit = 1000"

fun too_many_digits :: "pyval \<Rightarrow> bool" where
  \<comment> \<open>the value holds an integer of more than \<open>max_str_digits\<close> decimal digits, which
      \<^verbatim>\<open>str\<close> and \<^verbatim>\<open>repr\<close> refuse to convert\<close>
  "too_many_digits (VInt i) = (10 ^ max_str_digits \<le> \<bar>i\<bar>)"
| "too_many_digits (VList xs) = list_ex too_many_digits xs"
| "too_many_digits (VDict kvs) = list_ex (\<lambda>kv. too_many_digits (snd kv)) kvs"
| "too_many_digits v = False"

fun nesting :: "pyval \<Rightarrow> nat" where
  \<comment> \<open>the depth of the lists and dictionaries of a value, 0 for a scalar\<close>
  "nesting (VList xs) = Suc (foldr max (map nesting xs) 0)"
| "nesting (VDict kvs) = Suc (foldr max (map (\<lambda>kv. nesting (snd kv)) kvs) 0)"
| "nesting v = 0"

definition py_str_limited :: "nat \<Rightarrow> pyval \<Rightarrow> error + string" where
  \<comment> \<open>\<^verbatim>\<open>str(value)\<close>, line 97, with its two errors\<close>
  "py_str_limited frames v =
     (if frames < nesting v then Inl RecursionError
      else if too_many_digits v then Inl ValueError
      else Inr (py_str v))"

definition mask_value_limited :: "nat \<Rightarrow> masker \<Rightarrow> string \<Rightarrow> pyval \<Rightarrow> error + pyval" where
  \<comment> \<open>\<open>mask_value\<close>, with the fallible \<^verbatim>\<open>str(value)\<close>\<close>
  "mask_value_limited frames m field_name v =
     (if \<not> enabled m \<or> v = VNone then Inr v
      else
        let field_lower = lower field_name in
        if \<not> should_mask m field_lower then Inr v
        else
          and_then (py_str_limited frames v) (\<lambda>str_value.
          (case apply_patterns patterns field_lower str_value of
             Some r \<Rightarrow> and_then r (\<lambda>s. Inr (VStr s))
           | None \<Rightarrow> and_then (mask_generic str_value) (\<lambda>s. Inr (VStr s)))))"

text \<open>
  \<^verbatim>\<open>mask_dict\<close> with the budget: a call with no level left raises, every other call runs
  its loop with one level less.
\<close>

function mask_dict_limited ::
    "nat \<Rightarrow> masker \<Rightarrow> (string \<times> pyval) list \<Rightarrow> error + (string \<times> pyval) list"
  and mask_items_loop_limited ::
    "nat \<Rightarrow> masker \<Rightarrow> (string \<times> pyval) list \<Rightarrow> (string \<times> pyval) list
       \<Rightarrow> error + (string \<times> pyval) list"
  and mask_elements_limited ::
    "nat \<Rightarrow> masker \<Rightarrow> string \<Rightarrow> pyval list \<Rightarrow> error + pyval list"
where
  "mask_dict_limited 0 m data = Inl RecursionError"
| "mask_dict_limited (Suc frames) m data = mask_items_loop_limited frames m [] data"
| "mask_items_loop_limited frames m result [] = Inr result"
| "mask_items_loop_limited frames m result ((key, v) # rest) =
     and_then
       (case v of
          VDict d \<Rightarrow> and_then (mask_dict_limited frames m d) (\<lambda>r. Inr (VDict r))
        | VList xs \<Rightarrow> and_then (mask_elements_limited frames m key xs) (\<lambda>r. Inr (VList r))
        | _ \<Rightarrow> mask_value_limited frames m key v)
       (\<lambda>w. mask_items_loop_limited frames m (dict_set result key w) rest)"
| "mask_elements_limited frames m key [] = Inr []"
| "mask_elements_limited frames m key (item # rest) =
     and_then
       (case item of
          VDict d \<Rightarrow> and_then (mask_dict_limited frames m d) (\<lambda>r. Inr (VDict r))
        | _ \<Rightarrow> mask_value_limited frames m key item)
       (\<lambda>w. and_then (mask_elements_limited frames m key rest) (\<lambda>ws. Inr (w # ws)))"
  by pat_completeness auto
termination
  by (relation "measure (\<lambda>x. case x of
        Inl (frames, m, data) \<Rightarrow> Suc (size_list (size_prod (\<lambda>_. 0) size) data)
      | Inr (Inl (frames, m, result, data)) \<Rightarrow> size_list (size_prod (\<lambda>_. 0) size) data
      | Inr (Inr (frames, m, key, xs)) \<Rightarrow> size_list size xs)") auto

fun nested_record :: "nat \<Rightarrow> (string \<times> pyval) list" where
  \<comment> \<open>a record nested \<open>n\<close> deep under the key \<open>child\<close>, an empty record innermost\<close>
  "nested_record 0 = []"
| "nested_record (Suc n) = [(''child'', VDict (nested_record n))]"


section \<open>Shape of structured values\<close>

fun wf_value :: "pyval \<Rightarrow> bool" where
  \<comment> \<open>the lists of items that stand for dictionaries have distinct keys\<close>
  "wf_value (VDict d) = (distinct (map fst d) \<and> list_all (\<lambda>kv. wf_value (snd kv)) d)"
| "wf_value (VList xs) = list_all wf_value xs"
| "wf_value v = True"

text \<open>
  \<open>leafwise L d out\<close>: the dictionaries \<open>d\<close> and \<open>out\<close> have the same keys in the same order,
  dictionaries lie under the same keys in both and are related in the same way, a list
  under a key has the same length in both, its elements that are dictionaries are related
  in the same way, and every other value \<open>v\<close> of \<open>d\<close> (a scalar under a key, or an element
  of a list that is not a dictionary) faces a value \<open>w\<close> of \<open>out\<close> with \<open>L key v w\<close>, where
  \<open>key\<close> is the key of the scalar or of the list. \<open>strict_shape\<close> is the stricter relation
  in which a list inside a list keeps its length too, and a leaf is kept or becomes a
  string.
\<close>

function leafwise ::
    "(string \<Rightarrow> pyval \<Rightarrow> pyval \<Rightarrow> bool) \<Rightarrow> (string \<times> pyval) list \<Rightarrow> (string \<times> pyval) list \<Rightarrow> bool"
  and leafwise_elements ::
    "(string \<Rightarrow> pyval \<Rightarrow> pyval \<Rightarrow> bool) \<Rightarrow> string \<Rightarrow> pyval list \<Rightarrow> pyval list \<Rightarrow> bool"
where
  "leafwise L [] out = (out = [])"
| "leafwise L ((key, v) # rest) out =
     (case out of
        [] \<Rightarrow> False
      | (key', w) # rest' \<Rightarrow>
          key' = key
          \<and> (case v of
                VDict d \<Rightarrow> (case w of VDict e \<Rightarrow> leafwise L d e | _ \<Rightarrow> False)
              | VList xs \<Rightarrow> (case w of VList ys \<Rightarrow> leafwise_elements L key xs ys | _ \<Rightarrow> False)
              | _ \<Rightarrow> L key v w)
          \<and> leafwise L rest rest')"
| "leafwise_elements L key [] out = (out = [])"
| "leafwise_elements L key (item # rest) out =
     (case out of
        [] \<Rightarrow> False
      | w # rest' \<Rightarrow>
          (case item of
             VDict d \<Rightarrow> (case w of VDict e \<Rightarrow> leafwise L d e | _ \<Rightarrow> False)
           | _ \<Rightarrow> L key item w)
          \<and> leafwise_elements L key rest rest')"
  by pat_completeness auto
termination
  by (relation "measure (\<lambda>x. case x of
        Inl (L, data, out) \<Rightarrow> size_list (size_prod (\<lambda>_. 0) size) data
      | Inr (L, key, xs, out) \<Rightarrow> size_list size xs)") auto

fun strict_shape :: "pyval \<Rightarrow> pyval \<Rightarrow> bool" where
  "strict_shape (VDict d) w =
     (case w of
        VDict e \<Rightarrow> map fst e = map fst d \<and> list_all2 strict_shape (map snd d) (map snd e)
      | _ \<Rightarrow> False)"
| "strict_shape (VList xs) w =
     (case w of VList ys \<Rightarrow> list_all2 strict_shape xs ys | _ \<Rightarrow> False)"
| "strict_shape v w = (w = v \<or> (case w of VStr s \<Rightarrow> True | _ \<Rightarrow> False))"


section \<open>The specification's notions\<close>

text \<open>
  The definitions of this section follow the words of the specification, not the source:
  they are what the source's functions are compared with.
\<close>

fun full_match :: "pattern \<Rightarrow> string \<Rightarrow> bool" where
  \<comment> \<open>the whole string belongs to the language of the pattern\<close>
  "full_match [] s = (s = [])"
| "full_match (Item cls lo hi # rest) s =
     list_ex (\<lambda>k. lo \<le> k \<and> (case hi of None \<Rightarrow> True | Some h \<Rightarrow> k \<le> h)
                  \<and> list_all cls (take k s) \<and> full_match rest (drop k s))
       [0 ..< Suc (length s)]"

definition prefix_match :: "pattern \<Rightarrow> string \<Rightarrow> bool" where
  \<comment> \<open>the pattern matches at position 0: some leading part of the string belongs to its
      language\<close>
  "prefix_match p s = list_ex (\<lambda>n. full_match p (take n s)) [0 ..< Suc (length s)]"

definition rule_applies :: "rule \<Rightarrow> string \<Rightarrow> string \<Rightarrow> bool" where
  \<comment> \<open>the two conditions of a pattern rule: its fragment is a substring of the lowercased
      field name, and its content pattern matches the string at position 0\<close>
  "rule_applies r field_name s =
     (sublist (fst r) (lower field_name) \<and> prefix_match (fst (snd r)) s)"

definition is_sensitive :: "masker \<Rightarrow> string \<Rightarrow> bool" where
  \<comment> \<open>\<^verbatim>\<open>isSensitive\<close> of the masking policy\<close>
  "is_sensitive m field_name =
     (enabled m \<and> (\<exists>fragment \<in> set (masked_fields m). sublist fragment (lower field_name)))"


definition ssn_fixed_shape :: "string \<Rightarrow> bool" where
  \<comment> \<open>the fixed output shape of the National ID strategy as the specification words it:
      \<open>***-**-\<close> followed by exactly four digits\<close>
  "ssn_fixed_shape out =
     (length out = 11 \<and> take 7 out = ''***-**-'' \<and> list_all is_digit (drop 7 out))"


text \<open>
  The reading of ``unchanged at every nesting depth'' in which every sequence is walked,
  a sequence lying directly in a sequence too: \<open>kept_items m d out\<close> holds when \<open>out\<close> has the
  keys of \<open>d\<close> in the same order, every sequence keeps its length, and every scalar under
  a field that is not sensitive is the same in both. The key of a scalar inside sequences
  is the key of the outermost sequence.
\<close>

function kept_items :: "masker \<Rightarrow> (string \<times> pyval) list \<Rightarrow> (string \<times> pyval) list \<Rightarrow> bool"
  and kept_value :: "masker \<Rightarrow> string \<Rightarrow> pyval \<Rightarrow> pyval \<Rightarrow> bool"
  and kept_list :: "masker \<Rightarrow> string \<Rightarrow> pyval list \<Rightarrow> pyval list \<Rightarrow> bool"
where
  "kept_items m [] out = (out = [])"
| "kept_items m ((key, v) # rest) out =
     (case out of
        [] \<Rightarrow> False
      | (key', w) # rest' \<Rightarrow> key' = key \<and> kept_value m key v w \<and> kept_items m rest rest')"
| "kept_value m key (VDict d) w = (case w of VDict e \<Rightarrow> kept_items m d e | _ \<Rightarrow> False)"
| "kept_value m key (VList xs) w = (case w of VList ys \<Rightarrow> kept_list m key xs ys | _ \<Rightarrow> False)"
| "kept_value m key VNone w = (is_sensitive m key \<or> w = VNone)"
| "kept_value m key (VBool b) w = (is_sensitive m key \<or> w = VBool b)"
| "kept_value m key (VInt i) w = (is_sensitive m key \<or> w = VInt i)"
| "kept_value m key (VStr s) w = (is_sensitive m key \<or> w = VStr s)"
| "kept_value m key (VOther s r) w = (is_sensitive m key \<or> w = VOther s r)"
| "kept_list m key [] out = (out = [])"
| "kept_list m key (x # xs) out =
     (case out of [] \<Rightarrow> False | y # ys \<Rightarrow> kept_value m key x y \<and> kept_list m key xs ys)"
  by pat_completeness auto
termination
  by (relation "measure (\<lambda>x. case x of
        Inl (m, d, out) \<Rightarrow> size_list (size_prod (\<lambda>_. 0) size) d
      | Inr (Inl (m, key, v, w)) \<Rightarrow> size v
      | Inr (Inr (m, key, xs, ys)) \<Rightarrow> size_list size xs)") auto


section \<open>Lemmas\<close>

subsection \<open>Strings and the strategies\<close>

lemma and_then_Inr [simp]: "and_then (Inr x) f = f x"
  by (simp add: and_then_def)

lemma and_then_Inl [simp]: "and_then (Inl e) f = Inl e"
  by (simp add: and_then_def)

lemma py_repeat_single: "py_repeat [c] n = replicate (nat n) c"
  by (induction "nat n" arbitrary: n) (auto simp: py_repeat_def)

lemma re_sub_class_filter: "re_sub_class cls [] s = filter (\<lambda>c. \<not> cls c) s"
  by (induction s) (auto simp: re_sub_class_def)

lemma py_in_sublist: "py_in a b \<longleftrightarrow> sublist a b"
  by (induction b) (auto simp: sublist_Cons_right)

lemma py_in_single: "py_in [c] v \<longleftrightarrow> c \<in> set v"
  by (induction v) auto

lemma rsplit1_absent:
  assumes "sep \<notin> set v"
  shows "rsplit1 v sep = [v]"
proof -
  have h: "dropWhile (\<lambda>c. c \<noteq> sep) (rev v) = []"
    using assms by (auto simp: dropWhile_eq_Nil_conv)
  show ?thesis
    unfolding rsplit1_def Let_def h by simp
qed

lemma rsplit1_last:
  assumes "sep \<notin> set d"
  shows "rsplit1 (l @ sep # d) sep = [l, d]"
proof -
  have tw: "takeWhile (\<lambda>c. c \<noteq> sep) (rev d @ sep # rev l) = rev d"
    using assms by (simp add: takeWhile_append)
  have dw: "dropWhile (\<lambda>c. c \<noteq> sep) (rev d @ sep # rev l) = sep # rev l"
    using assms by (simp add: dropWhile_append)
  show ?thesis
    by (simp add: rsplit1_def Let_def tw dw)
qed

lemma py_getitem_first: "s \<noteq> [] \<Longrightarrow> py_getitem s 0 = Inr (hd s)"
  by (cases s) (auto simp: py_getitem_def py_len_def)

lemma py_getitem_last: "s \<noteq> [] \<Longrightarrow> py_getitem s (- 1) = Inr (last s)"
proof -
  assume ne: "s \<noteq> []"
  then have "nat (int (length s) - 1) = length s - 1" by (cases s) auto
  with ne show ?thesis
    by (auto simp: py_getitem_def py_len_def Let_def last_conv_nth)
qed

lemma mask_email_split_long:
  assumes "CHR ''@'' \<notin> set d" "2 < length l"
  shows "mask_email (l @ ''@'' @ d) =
           Inr (hd l # replicate (length l - 2) CHR ''*'' @ [last l] @ ''@'' @ d)"
proof -
  have ne: "l \<noteq> []" using assms(2) by auto
  have n: "nat (int (length l) - 2) = length l - 2" by simp
  have "py_in ''@'' (l @ ''@'' @ d)" by (simp add: py_in_single)
  moreover have "rsplit1 (l @ ''@'' @ d) CHR ''@'' = [l, d]"
    using rsplit1_last [OF assms(1), of l] by simp
  ultimately show ?thesis
    using assms(2) ne
    by (simp add: mask_email_def unpack2_def py_getitem_first py_getitem_last
        py_repeat_single py_len_def n)
qed

lemma mask_email_split_short:
  assumes "CHR ''@'' \<notin> set d" "length l \<le> 2"
  shows "mask_email (l @ ''@'' @ d) = Inr (replicate (length l) CHR ''*'' @ ''@'' @ d)"
proof -
  have "py_in ''@'' (l @ ''@'' @ d)" by (simp add: py_in_single)
  moreover have "rsplit1 (l @ ''@'' @ d) CHR ''@'' = [l, d]"
    using rsplit1_last [OF assms(1), of l] by simp
  ultimately show ?thesis
    using assms(2)
    by (simp add: mask_email_def unpack2_def py_repeat_single py_len_def)
qed

lemma mask_email_no_at: "CHR ''@'' \<notin> set v \<Longrightarrow> mask_email v = Inr v"
  by (simp add: mask_email_def py_in_single)

text \<open>
  Claim C6. The Email strategy splits its input at the last \<open>@\<close>. A local part longer than
  two characters keeps its first and last character around \<open>len - 2\<close> stars, a local part
  of at most two characters becomes that many stars, the domain is kept, and an input
  without \<open>@\<close> is returned as it is.
\<close>

theorem C6_mask_email:
  "(CHR ''@'' \<notin> set domain \<and> 2 < length local \<longrightarrow>
      mask_email (local @ ''@'' @ domain) =
        Inr (hd local # replicate (length local - 2) CHR ''*'' @ [last local] @ ''@'' @ domain))
   \<and> (CHR ''@'' \<notin> set domain' \<and> length local' \<le> 2 \<longrightarrow>
      mask_email (local' @ ''@'' @ domain') =
        Inr (replicate (length local') CHR ''*'' @ ''@'' @ domain'))
   \<and> (CHR ''@'' \<notin> set v \<longrightarrow> mask_email v = Inr v)
   \<and> mask_email ''zhang@company.com'' = Inr ''z***g@company.com''"
proof -
  have "mask_email (''zhang'' @ ''@'' @ ''company.com'') = Inr ''z***g@company.com''"
    by (subst mask_email_split_long) simp_all
  then show ?thesis
    using mask_email_split_long [of "domain" "local"]
      mask_email_split_short [of domain' local'] mask_email_no_at [of v]
    by simp
qed

theorem C6_mask_email_witness:
  "mask_email ''zhang@company.com'' = Inr ''z***g@company.com''
   \<and> mask_email ''ab@x.io'' = Inr ''**@x.io''
   \<and> mask_email ''a@b@c'' = Inr ''a*b@c''
   \<and> mask_email ''no-at-sign'' = Inr ''no-at-sign''"
  using C6_mask_email [of "''company.com''" "''zhang''" "''x.io''" "''ab''" "''no-at-sign''"]
    C6_mask_email [of "''c''" "''a@b''" "''x.io''" "''ab''" "''no-at-sign''"]
  by simp

lemma mask_generic_short:
  "length v \<le> 2 \<Longrightarrow> mask_generic v = Inr (replicate (length v) CHR ''*'')"
  by (simp add: mask_generic_def py_len_def py_repeat_single)

lemma mask_generic_long:
  assumes "3 \<le> length v"
  shows "mask_generic v = Inr (hd v # replicate (length v - 2) CHR ''*'' @ [last v])"
proof -
  have ne: "v \<noteq> []" using assms by auto
  have n: "nat (int (length v) - 2) = length v - 2" by simp
  show ?thesis
    using assms ne
    by (simp add: mask_generic_def py_getitem_first py_getitem_last py_repeat_single
        py_len_def n)
qed

text \<open>
  Claim C8. The Generic strategy turns a string of at most two characters into stars of the
  same length, and keeps the first and the last character of a longer string, every
  character between them becoming a star.
\<close>

theorem C8_mask_generic:
  "(length v \<le> 2 \<longrightarrow> mask_generic v = Inr (replicate (length v) CHR ''*''))
   \<and> (3 \<le> length w \<longrightarrow>
        mask_generic w = Inr ([hd w] @ replicate (length w - 2) CHR ''*'' @ [last w]))"
  using mask_generic_short [of v] mask_generic_long [of w] by simp

theorem C8_mask_generic_witness:
  "mask_generic ''a'' = Inr ''*'' \<and> mask_generic ''ab'' = Inr ''**''
   \<and> mask_generic [] = Inr [] \<and> mask_generic ''Wang'' = Inr ''W**g''
   \<and> mask_generic ''abc'' = Inr ''a*c''"
  using C8_mask_generic [of "''a''" "''Wang''"] C8_mask_generic [of "''ab''" "''abc''"]
    C8_mask_generic [of "[]" "''abc''"]
  by simp

lemma ssn_strip:
  "re_sub_class sep_class [] v = filter (\<lambda>c. c \<noteq> CHR ''-'' \<and> \<not> is_space c) v"
  by (simp add: re_sub_class_filter sep_class_def)

lemma length_four: "length xs = 4 \<Longrightarrow> \<exists>a b c d. xs = [a, b, c, d]"
  by (auto simp: length_Suc_conv numeral_eq_Suc)

lemma py_slice_from_last4:
  "py_slice_from s (- 4) = drop (length s - 4) s"
  by (simp add: py_slice_from_def py_len_def nat_diff_distrib' max_def)

lemma mask_ssn_last_four:
  "mask_ssn v =
     Inr (''***-**-'' @ drop (length (filter (\<lambda>c. c \<noteq> CHR ''-'' \<and> \<not> is_space c) v) - 4)
                          (filter (\<lambda>c. c \<noteq> CHR ''-'' \<and> \<not> is_space c) v))
   \<and> ((\<forall>c \<in> set w. is_digit c \<or> c = CHR ''-'' \<or> is_space c) \<and> 4 \<le> length (filter is_digit w)
        \<longrightarrow> (\<exists>a b c d. mask_ssn w = Inr (''***-**-'' @ [a, b, c, d])
               \<and> is_digit a \<and> is_digit b \<and> is_digit c \<and> is_digit d
               \<and> suffix [a, b, c, d] (filter is_digit w)))
   \<and> mask_ssn ''123-45-6789'' = Inr ''***-**-6789''"
proof -
  have general: "mask_ssn v =
     Inr (''***-**-'' @ drop (length (filter (\<lambda>c. c \<noteq> CHR ''-'' \<and> \<not> is_space c) v) - 4)
                          (filter (\<lambda>c. c \<noteq> CHR ''-'' \<and> \<not> is_space c) v))" for v
    by (simp only: mask_ssn_def ssn_strip py_slice_from_last4)
  have digits: "\<exists>a b c d. mask_ssn w = Inr (''***-**-'' @ [a, b, c, d])
               \<and> is_digit a \<and> is_digit b \<and> is_digit c \<and> is_digit d
               \<and> suffix [a, b, c, d] (filter is_digit w)"
    if only: "\<forall>c \<in> set w. is_digit c \<or> c = CHR ''-'' \<or> is_space c"
      and four: "4 \<le> length (filter is_digit w)"
  proof -
    let ?s = "filter (\<lambda>c. c \<noteq> CHR ''-'' \<and> \<not> is_space c) w"
    have eq: "?s = filter is_digit w"
      using only by (intro filter_cong) (auto simp: is_digit_def is_space_def Let_def)
    let ?t = "drop (length (filter is_digit w) - 4) (filter is_digit w)"
    have len: "length ?t = 4" using four by simp
    then obtain a b c d where t: "?t = [a, b, c, d]"
      using length_four by blast
    have "set ?t \<subseteq> set (filter is_digit w)" by (rule set_drop_subset)
    then have "\<forall>x \<in> set ?t. is_digit x" by auto
    then have "is_digit a \<and> is_digit b \<and> is_digit c \<and> is_digit d"
      unfolding t by simp
    moreover have "suffix [a, b, c, d] (filter is_digit w)"
      using suffix_drop [of "length (filter is_digit w) - 4" "filter is_digit w"]
      unfolding t .
    moreover have "mask_ssn w = Inr (''***-**-'' @ [a, b, c, d])"
      using general [of w] unfolding eq t .
    ultimately show ?thesis by blast
  qed
  have "mask_ssn ''123-45-6789'' = Inr ''***-**-6789''"
    by (simp add: general is_space_def)
  with general [of v] digits show ?thesis by blast
qed

subsection \<open>No strategy raises\<close>

lemma mask_email_total: "\<exists>r. mask_email v = Inr r"
proof (cases "CHR ''@'' \<in> set v")
  case False
  then show ?thesis by (simp add: mask_email_no_at)
next
  case True
  then obtain l d where v: "v = l @ CHR ''@'' # d" and d: "CHR ''@'' \<notin> set d"
    using split_list_last [of "CHR ''@''" v] by blast
  have v': "v = l @ ''@'' @ d" using v by simp
  show ?thesis
  proof (cases "2 < length l")
    case True
    then show ?thesis using mask_email_split_long [OF d, of l] v' by simp
  next
    case False
    then have "length l \<le> 2" by simp
    then show ?thesis using mask_email_split_short [OF d, of l] v' by simp
  qed
qed

lemma mask_phone_total: "\<exists>r. mask_phone v = Inr r"
  by (simp add: mask_phone_def Let_def)

lemma mask_credit_card_total: "\<exists>r. mask_credit_card v = Inr r"
  by (simp add: mask_credit_card_def Let_def)

lemma mask_ssn_total: "\<exists>r. mask_ssn v = Inr r"
  by (simp add: mask_ssn_def)

lemma mask_generic_total: "\<exists>r. mask_generic v = Inr r"
proof (cases "length v \<le> 2")
  case True
  then show ?thesis by (simp add: mask_generic_short)
next
  case False
  then have "3 \<le> length v" by simp
  then show ?thesis by (simp add: mask_generic_long)
qed

lemma apply_patterns_total:
  assumes "\<forall>(n, p, f) \<in> set rules. \<forall>s. \<exists>r. f s = Inr r"
    and "apply_patterns rules fl s = Some res"
  shows "\<exists>r. res = Inr r"
  using assms
proof (induction rules)
  case Nil
  then show ?case by simp
next
  case (Cons rule rules)
  obtain n p f where rule: "rule = (n, p, f)" by (cases rule)
  show ?case
  proof (cases "py_in n fl \<and> re_match p s")
    case True
    then have "res = f s" using Cons.prems(2) rule by simp
    moreover have "\<exists>r. f s = Inr r" using Cons.prems(1) rule by auto
    ultimately show ?thesis by simp
  next
    case False
    then have "apply_patterns rules fl s = Some res"
      using Cons.prems(2) rule by (auto split: if_splits)
    moreover have "\<forall>(n, p, f) \<in> set rules. \<forall>s. \<exists>r. f s = Inr r"
      using Cons.prems(1) by simp
    ultimately show ?thesis using Cons.IH by blast
  qed
qed

lemma patterns_total: "\<forall>(n, p, f) \<in> set patterns. \<forall>s. \<exists>r. f s = Inr r"
  by (simp add: patterns_def mask_email_total mask_phone_total mask_credit_card_total
      mask_ssn_total)

lemma mask_value_cases:
  "mask_value m k v = Inr v \<or> (\<exists>s. mask_value m k v = Inr (VStr s))"
proof (cases "\<not> enabled m \<or> v = VNone \<or> \<not> should_mask m (lower k)")
  case True
  then show ?thesis by (auto simp: mask_value_def Let_def)
next
  case False
  show ?thesis
  proof (cases "apply_patterns patterns (lower k) (py_str v)")
    case None
    obtain r where "mask_generic (py_str v) = Inr r" using mask_generic_total by blast
    then show ?thesis using False None by (simp add: mask_value_def Let_def)
  next
    case (Some res)
    then obtain r where "res = Inr r"
      using apply_patterns_total [OF patterns_total] by blast
    then show ?thesis using False Some by (simp add: mask_value_def Let_def)
  qed
qed

lemma mask_value_total: "\<exists>w. mask_value m k v = Inr w"
  using mask_value_cases [of m k v] by auto

subsection \<open>The traversal of \<open>mask_dict\<close>\<close>

lemma dict_set_fresh: "k \<notin> fst ` set result \<Longrightarrow> dict_set result k v = result @ [(k, v)]"
  by (induction result) auto

lemma mask_structure:
  fixes m :: masker
  defines "L \<equiv> (\<lambda>m k v w. mask_value m k v = Inr w)"
  shows "wf_value (VDict data) \<Longrightarrow>
           \<exists>out. mask_dict m data = Inr out \<and> leafwise (L m) data out"
    and "list_all (\<lambda>kv. wf_value (snd kv)) data' \<Longrightarrow> distinct (map fst data') \<Longrightarrow>
           fst ` set data' \<inter> fst ` set result = {} \<Longrightarrow>
           \<exists>out. mask_items_loop m result data' = Inr (result @ out) \<and> leafwise (L m) data' out"
    and "list_all wf_value xs \<Longrightarrow>
           \<exists>ys. mask_elements m key xs = Inr ys \<and> leafwise_elements (L m) key xs ys"
proof (induction m data and m result data' and m key xs
    rule: mask_dict_mask_items_loop_mask_elements.induct)
  case (1 m data)
  then show ?case by simp
next
  case (2 m result)
  then show ?case by simp
next
  case (3 m result key v rest)
  let ?F = "case v of
          VDict d \<Rightarrow> and_then (mask_dict m d) (\<lambda>r. Inr (VDict r))
        | VList xs \<Rightarrow> and_then (mask_elements m key xs) (\<lambda>r. Inr (VList r))
        | _ \<Rightarrow> mask_value m key v"
  let ?rel = "\<lambda>w. case v of
                VDict d \<Rightarrow> (case w of VDict e \<Rightarrow> leafwise (L m) d e | _ \<Rightarrow> False)
              | VList xs \<Rightarrow> (case w of VList ys \<Rightarrow> leafwise_elements (L m) key xs ys | _ \<Rightarrow> False)
              | _ \<Rightarrow> L m key v w"
  have wfv: "wf_value v" and wfrest: "list_all (\<lambda>kv. wf_value (snd kv)) rest"
    using "3.prems"(1) by simp_all
  have "\<exists>w. ?F = Inr w \<and> ?rel w"
  proof (cases v)
    case (VDict d)
    then obtain out where "mask_dict m d = Inr out" "leafwise (L m) d out"
      using "3.IH"(2) wfv by blast
    then show ?thesis using VDict by simp
  next
    case (VList ys)
    then have "list_all wf_value ys" using wfv by simp
    then obtain out where "mask_elements m key ys = Inr out" "leafwise_elements (L m) key ys out"
      using "3.IH"(1) VList by blast
    then show ?thesis using VList by simp
  qed (use mask_value_total [of m key v] in \<open>auto simp: L_def\<close>)
  then obtain w where w: "?F = Inr w" "?rel w" by blast
  have fresh: "key \<notin> fst ` set result"
    using "3.prems"(3) by auto
  have "distinct (map fst rest)" using "3.prems"(2) by simp
  moreover have "fst ` set rest \<inter> fst ` set (dict_set result key w) = {}"
    using "3.prems"(2,3) by (auto simp: dict_set_fresh [OF fresh])
  ultimately obtain out where out:
    "mask_items_loop m (dict_set result key w) rest = Inr (dict_set result key w @ out)"
    "leafwise (L m) rest out"
    using "3.IH"(3) wfrest by blast
  have "mask_items_loop m result ((key, v) # rest) = Inr (result @ (key, w) # out)"
    using w(1) out(1) by (simp add: dict_set_fresh [OF fresh])
  moreover have "leafwise (L m) ((key, v) # rest) ((key, w) # out)"
    using w(2) out(2) by simp
  ultimately show ?case by blast
next
  case (4 m key)
  then show ?case by simp
next
  case (5 m key item rest)
  let ?F = "case item of
          VDict d \<Rightarrow> and_then (mask_dict m d) (\<lambda>r. Inr (VDict r))
        | _ \<Rightarrow> mask_value m key item"
  let ?rel = "\<lambda>w. case item of
             VDict d \<Rightarrow> (case w of VDict e \<Rightarrow> leafwise (L m) d e | _ \<Rightarrow> False)
           | _ \<Rightarrow> L m key item w"
  have wfi: "wf_value item" and wfrest: "list_all wf_value rest"
    using "5.prems" by simp_all
  have "\<exists>w. ?F = Inr w \<and> ?rel w"
  proof (cases item)
    case (VDict d)
    then obtain out where "mask_dict m d = Inr out" "leafwise (L m) d out"
      using "5.IH"(1) wfi by blast
    then show ?thesis using VDict by simp
  qed (use mask_value_total [of m key item] in \<open>auto simp: L_def\<close>)
  then obtain w where w: "?F = Inr w" "?rel w" by blast
  obtain ws where ws: "mask_elements m key rest = Inr ws" "leafwise_elements (L m) key rest ws"
    using "5.IH"(2) wfrest by blast
  have "mask_elements m key (item # rest) = Inr (w # ws)"
    using w(1) ws(1) by simp
  moreover have "leafwise_elements (L m) key (item # rest) (w # ws)"
    using w(2) ws(2) by simp
  ultimately show ?case by blast
qed

lemma leafwise_mono:
  shows "(\<And>k v w. L k v w \<Longrightarrow> L' k v w) \<Longrightarrow> leafwise L d e \<Longrightarrow> leafwise L' d e"
    and "(\<And>k v w. L k v w \<Longrightarrow> L' k v w) \<Longrightarrow> leafwise_elements L key xs ys
           \<Longrightarrow> leafwise_elements L' key xs ys"
proof (induction L d e and L key xs ys rule: leafwise_leafwise_elements.induct)
  case (1 L out)
  then show ?case by simp
next
  case (2 L key v rest out)
  show ?case
  proof (cases out)
    case Nil
    then show ?thesis using "2.prems"(2) by simp
  next
    case (Cons kw rest')
    obtain k' w where kw: "kw = (k', w)" by (cases kw)
    have k: "k' = key" and r: "leafwise L rest rest'"
      using "2.prems"(2) Cons kw by simp_all
    have r': "leafwise L' rest rest'"
      using "2.IH"(3) [OF Cons kw [symmetric]] "2.prems"(1) r by blast
    have "case v of
            VDict d \<Rightarrow> (case w of VDict e \<Rightarrow> leafwise L' d e | _ \<Rightarrow> False)
          | VList xs \<Rightarrow> (case w of VList ys \<Rightarrow> leafwise_elements L' key xs ys | _ \<Rightarrow> False)
          | _ \<Rightarrow> L' key v w"
    proof (cases v)
      case (VDict d)
      then obtain e where w: "w = VDict e" and de: "leafwise L d e"
        using "2.prems"(2) Cons kw by (cases w) simp_all
      have "leafwise L' d e"
        using "2.IH"(2) [OF Cons kw [symmetric] VDict w] "2.prems"(1) de by blast
      then show ?thesis using VDict w by simp
    next
      case (VList xs)
      then obtain ys where w: "w = VList ys" and de: "leafwise_elements L key xs ys"
        using "2.prems"(2) Cons kw by (cases w) simp_all
      have "leafwise_elements L' key xs ys"
        using "2.IH"(1) [OF Cons kw [symmetric] VList w] "2.prems"(1) de by blast
      then show ?thesis using VList w by simp
    qed (use "2.prems" Cons kw in simp_all)
    then show ?thesis using Cons kw k r' by simp
  qed
next
  case (3 L key out)
  then show ?case by simp
next
  case (4 L key item rest out)
  show ?case
  proof (cases out)
    case Nil
    then show ?thesis using "4.prems"(2) by simp
  next
    case (Cons w rest')
    have r: "leafwise_elements L key rest rest'"
      using "4.prems"(2) Cons by simp
    have r': "leafwise_elements L' key rest rest'"
      using "4.IH"(2) [OF Cons] "4.prems"(1) r by blast
    have "case item of
            VDict d \<Rightarrow> (case w of VDict e \<Rightarrow> leafwise L' d e | _ \<Rightarrow> False)
          | _ \<Rightarrow> L' key item w"
    proof (cases item)
      case (VDict d)
      then obtain e where w: "w = VDict e" and de: "leafwise L d e"
        using "4.prems"(2) Cons by (cases w) simp_all
      have "leafwise L' d e"
        using "4.IH"(1) [OF Cons VDict w] "4.prems"(1) de by blast
      then show ?thesis using VDict w by simp
    qed (use "4.prems" Cons in simp_all)
    then show ?thesis using Cons r' by simp
  qed
qed


lemma leafwise_eq:
  shows "(\<And>k v w. L k v w \<Longrightarrow> w = v) \<Longrightarrow> leafwise L d e \<Longrightarrow> e = d"
    and "(\<And>k v w. L k v w \<Longrightarrow> w = v) \<Longrightarrow> leafwise_elements L key xs ys \<Longrightarrow> ys = xs"
proof (induction L d e and L key xs ys rule: leafwise_leafwise_elements.induct)
  case (1 L out)
  then show ?case by simp
next
  case (2 L key v rest out)
  show ?case
  proof (cases out)
    case Nil
    then show ?thesis using "2.prems"(2) by simp
  next
    case (Cons kw rest')
    obtain k' w where kw: "kw = (k', w)" by (cases kw)
    have k: "k' = key" and r: "leafwise L rest rest'"
      using "2.prems"(2) Cons kw by simp_all
    have r': "rest' = rest"
      using "2.IH"(3) [OF Cons kw [symmetric]] "2.prems"(1) r by blast
    have "w = v"
    proof (cases v)
      case (VDict d)
      then obtain e where w: "w = VDict e" and de: "leafwise L d e"
        using "2.prems"(2) Cons kw by (cases w) simp_all
      have "e = d"
        using "2.IH"(2) [OF Cons kw [symmetric] VDict w] "2.prems"(1) de by blast
      then show ?thesis using VDict w by simp
    next
      case (VList xs)
      then obtain ys where w: "w = VList ys" and de: "leafwise_elements L key xs ys"
        using "2.prems"(2) Cons kw by (cases w) simp_all
      have "ys = xs"
        using "2.IH"(1) [OF Cons kw [symmetric] VList w] "2.prems"(1) de by blast
      then show ?thesis using VList w by simp
    qed (use "2.prems" Cons kw in auto)
    then show ?thesis using Cons kw k r' by simp
  qed
next
  case (3 L key out)
  then show ?case by simp
next
  case (4 L key item rest out)
  show ?case
  proof (cases out)
    case Nil
    then show ?thesis using "4.prems"(2) by simp
  next
    case (Cons w rest')
    have r: "leafwise_elements L key rest rest'"
      using "4.prems"(2) Cons by simp
    have r': "rest' = rest"
      using "4.IH"(2) [OF Cons] "4.prems"(1) r by blast
    have "w = item"
    proof (cases item)
      case (VDict d)
      then obtain e where w: "w = VDict e" and de: "leafwise L d e"
        using "4.prems"(2) Cons by (cases w) simp_all
      have "e = d"
        using "4.IH"(1) [OF Cons VDict w] "4.prems"(1) de by blast
      then show ?thesis using VDict w by simp
    qed (use "4.prems" Cons in auto)
    then show ?thesis using Cons r' by simp
  qed
qed

lemma leafwise_keys: "leafwise L d e \<Longrightarrow> map fst e = map fst d"
proof (induction d arbitrary: e)
  case Nil
  then show ?case by simp
next
  case (Cons kv d)
  obtain k v where kv: "kv = (k, v)" by (cases kv)
  from Cons.prems obtain w e' where e: "e = (k, w) # e'" and r: "leafwise L d e'"
    unfolding kv by (cases e) auto
  show ?case using Cons.IH [OF r] e kv by simp
qed

lemma mask_dict_total_aux:
  shows "\<exists>out. mask_dict m data = Inr out"
    and "\<exists>out. mask_items_loop m result data' = Inr out"
    and "\<exists>ys. mask_elements m key xs = Inr ys"
proof (induction m data and m result data' and m key xs
    rule: mask_dict_mask_items_loop_mask_elements.induct)
  case (1 m data)
  then show ?case by simp
next
  case (2 m result)
  then show ?case by simp
next
  case (3 m result key v rest)
  have "\<exists>w. (case v of
          VDict d \<Rightarrow> and_then (mask_dict m d) (\<lambda>r. Inr (VDict r))
        | VList xs \<Rightarrow> and_then (mask_elements m key xs) (\<lambda>r. Inr (VList r))
        | _ \<Rightarrow> mask_value m key v) = Inr w"
  proof (cases v)
    case (VDict d)
    then show ?thesis using "3.IH"(2) by fastforce
  next
    case (VList ys)
    then show ?thesis using "3.IH"(1) by fastforce
  qed (use mask_value_total [of m key v] in auto)
  then obtain w where "(case v of
          VDict d \<Rightarrow> and_then (mask_dict m d) (\<lambda>r. Inr (VDict r))
        | VList xs \<Rightarrow> and_then (mask_elements m key xs) (\<lambda>r. Inr (VList r))
        | _ \<Rightarrow> mask_value m key v) = Inr w" by blast
  then show ?case using "3.IH"(3) [of w] by simp
next
  case (4 m key)
  then show ?case by simp
next
  case (5 m key item rest)
  have "\<exists>w. (case item of
          VDict d \<Rightarrow> and_then (mask_dict m d) (\<lambda>r. Inr (VDict r))
        | _ \<Rightarrow> mask_value m key item) = Inr w"
  proof (cases item)
    case (VDict d)
    then show ?thesis using "5.IH"(1) by fastforce
  qed (use mask_value_total [of m key item] in auto)
  then obtain w where "(case item of
          VDict d \<Rightarrow> and_then (mask_dict m d) (\<lambda>r. Inr (VDict r))
        | _ \<Rightarrow> mask_value m key item) = Inr w" by blast
  moreover obtain ws where "mask_elements m key rest = Inr ws" using "5.IH"(2) by blast
  ultimately show ?case by simp
qed

lemma mask_value_disabled: "\<not> enabled m \<Longrightarrow> mask_value m k v = Inr v"
  by (simp add: mask_value_def)

text \<open>
  Claim C4. With masking disabled, \<open>mask_dict\<close> returns a structure equal to its input,
  for every structured value whose mappings have distinct keys.
\<close>

theorem C4_disabled_identity:
  "\<not> enabled m \<Longrightarrow> wf_value (VDict d) \<Longrightarrow> mask_dict m d = Inr d"
proof -
  assume off: "\<not> enabled m" and wf: "wf_value (VDict d)"
  obtain out where out: "mask_dict m d = Inr out"
    and rel: "leafwise (\<lambda>k v w. mask_value m k v = Inr w) d out"
    using mask_structure(1) [OF wf] by blast
  have "out = d"
    using leafwise_eq(1) [OF _ rel] mask_value_disabled [OF off] by auto
  then show ?thesis using out by simp
qed

theorem C4_disabled_identity_witness:
  "\<not> enabled (DataMasker_init (default_settings\<lparr>enable_data_masking := False\<rparr>) None)
   \<and> wf_value (VDict [(''email'', VStr ''zhang@company.com''),
                       (''reports'', VList [VDict [(''phone'', VStr ''0912-345-678'')], VInt 7])])
   \<and> mask_dict (DataMasker_init (default_settings\<lparr>enable_data_masking := False\<rparr>) None)
        [(''email'', VStr ''zhang@company.com''),
         (''reports'', VList [VDict [(''phone'', VStr ''0912-345-678'')], VInt 7])]
      = Inr [(''email'', VStr ''zhang@company.com''),
             (''reports'', VList [VDict [(''phone'', VStr ''0912-345-678'')], VInt 7])]"
proof -
  have off: "\<not> enabled (DataMasker_init (default_settings\<lparr>enable_data_masking := False\<rparr>) None)"
    by (simp add: DataMasker_init_def default_settings_def)
  have wf: "wf_value (VDict [(''email'', VStr ''zhang@company.com''),
                       (''reports'', VList [VDict [(''phone'', VStr ''0912-345-678'')], VInt 7])])"
    by simp
  show ?thesis
    using off wf C4_disabled_identity [OF off wf] by simp
qed

text \<open>
  Claim C1, as amended. The output of \<open>mask_dict\<close> has the keys of the input in the same
  order in every mapping it traverses, and every sequence that is the value of a key keeps
  its length and order. The leaves are the scalars and the elements of such a sequence that
  are not mappings, a sequence lying directly in a sequence among them: \<open>mask_value\<close> takes
  such an element as a whole. A leaf of the output is the leaf of the input or a string.
  As the claim is written, with every nested sequence keeping its length, it fails: under a
  sensitive key a sequence inside a sequence is replaced by one masked string.
\<close>

theorem C1_shape_preserved:
  "wf_value (VDict d) \<Longrightarrow>
     \<exists>out. mask_dict m d = Inr out \<and> map fst out = map fst d
        \<and> leafwise (\<lambda>k v w. w = v \<or> (\<exists>s. w = VStr s)) d out"
proof -
  assume wf: "wf_value (VDict d)"
  obtain out where out: "mask_dict m d = Inr out"
    and rel: "leafwise (\<lambda>k v w. mask_value m k v = Inr w) d out"
    using mask_structure(1) [OF wf] by blast
  have "leafwise (\<lambda>k v w. w = v \<or> (\<exists>s. w = VStr s)) d out"
  proof (rule leafwise_mono(1) [OF _ rel])
    fix k v w
    assume "mask_value m k v = Inr w"
    then show "w = v \<or> (\<exists>s. w = VStr s)"
      using mask_value_cases [of m k v] by auto
  qed
  then show ?thesis using out leafwise_keys by blast
qed


theorem C1_shape_counterexample:
  "wf_value (VDict [(''email'', VList [VList [VInt 1, VInt 2]])])
   \<and> mask_dict (DataMasker_init default_settings None)
        [(''email'', VList [VList [VInt 1, VInt 2]])]
      = Inr [(''email'', VList [VStr ''[****]''])]
   \<and> \<not> strict_shape (VDict [(''email'', VList [VList [VInt 1, VInt 2]])])
                      (VDict [(''email'', VList [VStr ''[****]''])])"
proof -
  have "mask_dict (DataMasker_init default_settings None)
        [(''email'', VList [VList [VInt 1, VInt 2]])]
      = Inr [(''email'', VList [VStr ''[****]''])]"
    by code_simp
  then show ?thesis by simp
qed

theorem C1_shape_preserved_witness:
  "wf_value (VDict [(''manager'', VDict [(''email'', VStr ''li@co.com'')]),
                    (''reports'', VList [VDict [(''email'', VStr ''a@co.com'')], VInt 12])])
   \<and> (\<exists>out. mask_dict (DataMasker_init default_settings None)
               [(''manager'', VDict [(''email'', VStr ''li@co.com'')]),
                (''reports'', VList [VDict [(''email'', VStr ''a@co.com'')], VInt 12])] = Inr out
          \<and> map fst out = [''manager'', ''reports'']
          \<and> leafwise (\<lambda>k v w. w = v \<or> (\<exists>s. w = VStr s))
               [(''manager'', VDict [(''email'', VStr ''li@co.com'')]),
                (''reports'', VList [VDict [(''email'', VStr ''a@co.com'')], VInt 12])] out)"
proof -
  have wf: "wf_value (VDict [(''manager'', VDict [(''email'', VStr ''li@co.com'')]),
                    (''reports'', VList [VDict [(''email'', VStr ''a@co.com'')], VInt 12])])"
    by simp
  show ?thesis
    using wf C1_shape_preserved [OF wf, of "DataMasker_init default_settings None"] by simp
qed

subsection \<open>Totality and the fallbacks\<close>

lemma mask_phone_short:
  "length (filter (\<lambda>c. \<not> sep_class c) s) < 4 \<Longrightarrow>
     mask_phone s = Inr (replicate (length (filter (\<lambda>c. \<not> sep_class c) s)) CHR ''*'')"
  by (simp add: mask_phone_def re_sub_class_filter py_len_def py_repeat_single)

lemma mask_credit_card_short:
  "length (filter (\<lambda>c. \<not> sep_class c) s) < 4 \<Longrightarrow>
     mask_credit_card s = Inr (replicate (length (filter (\<lambda>c. \<not> sep_class c) s)) CHR ''*'')"
  by (simp add: mask_credit_card_def re_sub_class_filter py_len_def py_repeat_single)

lemma mask_value_other:
  "enabled m \<Longrightarrow> should_mask m (lower k) \<Longrightarrow>
     mask_value m k (VOther a b) = mask_value m k (VStr a)"
  by (simp add: mask_value_def)

subsection \<open>The matcher and the language of a pattern\<close>

lemma list_ex_upto: "list_ex P [0 ..< Suc n] \<longleftrightarrow> (\<exists>k. k \<le> n \<and> P k)"
proof -
  have "set [0 ..< Suc n] = {k. k \<le> n}" by auto
  then show ?thesis unfolding list_ex_iff by blast
qed

lemma counts_set:
  "set (counts lo hi run) =
     {k. lo \<le> k \<and> k \<le> run \<and> (case hi of None \<Rightarrow> True | Some h \<Rightarrow> k \<le> h)}"
  by (auto simp: counts_def split: option.splits)

lemma run_le:
  "k \<le> length (takeWhile P s) \<longleftrightarrow> k \<le> length s \<and> (\<forall>c \<in> set (take k s). P c)"
proof (induction s arbitrary: k)
  case Nil
  then show ?case by simp
next
  case (Cons a s)
  then show ?case by (cases k) auto
qed

lemma match_here_cons:
  "match_here (Item cls lo hi # rest) s \<longleftrightarrow>
     (\<exists>k. lo \<le> k \<and> (case hi of None \<Rightarrow> True | Some h \<Rightarrow> k \<le> h) \<and> k \<le> length s
          \<and> (\<forall>c \<in> set (take k s). cls c) \<and> match_here rest (drop k s))"
  by (auto simp: list_ex_iff counts_set run_le)

lemma full_match_cons:
  "full_match (Item cls lo hi # rest) s \<longleftrightarrow>
     (\<exists>k. lo \<le> k \<and> (case hi of None \<Rightarrow> True | Some h \<Rightarrow> k \<le> h) \<and> k \<le> length s
          \<and> (\<forall>c \<in> set (take k s). cls c) \<and> full_match rest (drop k s))"
  unfolding full_match.simps list_ex_upto list_all_iff by blast

lemma prefix_match_iff: "prefix_match p s \<longleftrightarrow> (\<exists>u. prefix u s \<and> full_match p u)"
proof
  assume "prefix_match p s"
  then obtain n where "full_match p (take n s)"
    unfolding prefix_match_def list_ex_upto by blast
  then show "\<exists>u. prefix u s \<and> full_match p u"
    using take_is_prefix by blast
next
  assume "\<exists>u. prefix u s \<and> full_match p u"
  then obtain u where u: "prefix u s" "full_match p u" by blast
  then have "take (length u) s = u" "length u \<le> length s"
    by (auto simp: prefix_def)
  then show "prefix_match p s"
    unfolding prefix_match_def list_ex_upto using u(2) by (intro exI [of _ "length u"]) simp
qed

lemma match_here_iff: "match_here p s \<longleftrightarrow> (\<exists>u. prefix u s \<and> full_match p u)"
proof (induction p arbitrary: s)
  case Nil
  then show ?case by auto
next
  case (Cons it rest)
  obtain cls lo hi where it: "it = Item cls lo hi" by (cases it)
  show ?case
  proof
    assume "match_here (it # rest) s"
    then obtain k where k: "lo \<le> k" "case hi of None \<Rightarrow> True | Some h \<Rightarrow> k \<le> h"
      "k \<le> length s" "\<forall>c \<in> set (take k s). cls c" "match_here rest (drop k s)"
      unfolding it match_here_cons by blast
    then obtain u' where u': "prefix u' (drop k s)" "full_match rest u'"
      using Cons.IH by blast
    let ?u = "take k s @ u'"
    have "prefix ?u s"
      using u'(1) by (metis append_take_drop_id same_prefix_prefix)
    moreover have "full_match (it # rest) ?u"
      unfolding it full_match_cons
      using k u' by (intro exI [of _ k]) auto
    ultimately show "\<exists>u. prefix u s \<and> full_match (it # rest) u" by blast
  next
    assume "\<exists>u. prefix u s \<and> full_match (it # rest) u"
    then obtain u k where u: "prefix u s" and k: "lo \<le> k"
      "case hi of None \<Rightarrow> True | Some h \<Rightarrow> k \<le> h"
      "k \<le> length u" "\<forall>c \<in> set (take k u). cls c" "full_match rest (drop k u)"
      unfolding it full_match_cons by blast
    obtain t where s: "s = u @ t" using u by (auto simp: prefix_def)
    have tk: "take k s = take k u" using k(3) s by simp
    have "prefix (drop k u) (drop k s)" using k(3) s by simp
    then have "match_here rest (drop k s)" using Cons.IH k(5) by blast
    moreover have "k \<le> length s" using k(3) s by simp
    ultimately show "match_here (it # rest) s"
      unfolding it match_here_cons using k tk by (intro exI [of _ k]) auto
  qed
qed

lemma re_match_iff: "re_match p s \<longleftrightarrow> prefix_match p s"
  by (simp add: re_match_def match_here_iff prefix_match_iff)

subsection \<open>The selection of a strategy\<close>

lemma should_mask_iff: "enabled m \<and> should_mask m (lower name) \<longleftrightarrow> is_sensitive m name"
  by (simp add: should_mask_def is_sensitive_def list_ex_iff py_in_sublist)

lemma rule_applies_code:
  "rule_applies (n, p, f) name s \<longleftrightarrow> py_in n (lower name) \<and> re_match p s"
  by (simp add: rule_applies_def py_in_sublist re_match_iff)

lemma apply_patterns_find:
  "apply_patterns rules (lower name) s =
     (case find (\<lambda>r. rule_applies r name s) rules of
        None \<Rightarrow> None
      | Some r \<Rightarrow> Some (snd (snd r) s))"
proof (induction rules)
  case Nil
  then show ?case by simp
next
  case (Cons r rules)
  obtain n p f where r: "r = (n, p, f)" by (cases r)
  show ?case
    unfolding r using Cons.IH by (simp add: rule_applies_code)
qed

lemma mask_value_sensitive:
  assumes "is_sensitive m name" "v \<noteq> VNone"
  shows "mask_value m name v =
     and_then (case find (\<lambda>r. rule_applies r name (py_str v)) patterns of
                 None \<Rightarrow> mask_generic (py_str v)
               | Some r \<Rightarrow> snd (snd r) (py_str v))
       (\<lambda>s. Inr (VStr s))"
proof -
  have "enabled m" "should_mask m (lower name)"
    using assms(1) should_mask_iff by blast+
  then show ?thesis
    using assms(2)
    by (simp add: mask_value_def Let_def apply_patterns_find split: option.splits)
qed

lemma mask_value_first_rule:
  assumes "is_sensitive m name" "v \<noteq> VNone"
    and "i < length patterns" "rule_applies (patterns ! i) name (py_str v)"
    and "\<forall>j < i. \<not> rule_applies (patterns ! j) name (py_str v)"
  shows "mask_value m name v =
           and_then (snd (snd (patterns ! i)) (py_str v)) (\<lambda>s. Inr (VStr s))"
proof -
  have "find (\<lambda>r. rule_applies r name (py_str v)) patterns = Some (patterns ! i)"
    unfolding find_Some_iff using assms(3,4,5) by blast
  then show ?thesis
    using mask_value_sensitive [OF assms(1,2)] by simp
qed

lemma mask_value_no_rule:
  assumes "is_sensitive m name" "v \<noteq> VNone"
    and "\<forall>j < length patterns. \<not> rule_applies (patterns ! j) name (py_str v)"
  shows "mask_value m name v = and_then (mask_generic (py_str v)) (\<lambda>s. Inr (VStr s))"
proof -
  have "find (\<lambda>r. rule_applies r name (py_str v)) patterns = None"
    unfolding find_None_iff using assms(3) by (auto simp: in_set_conv_nth)
  then show ?thesis
    using mask_value_sensitive [OF assms(1,2)] by simp
qed

lemma first_rule_exists:
  assumes "\<exists>j < length rules. P (rules ! j)"
  shows "\<exists>i < length rules. P (rules ! i) \<and> (\<forall>j < i. \<not> P (rules ! j))"
proof -
  let ?Q = "\<lambda>i. i < length rules \<and> P (rules ! i)"
  from assms obtain j where "?Q j" by blast
  then have "?Q (LEAST i. ?Q i)" by (rule LeastI)
  moreover have "\<forall>j < (LEAST i. ?Q i). \<not> P (rules ! j)"
    using not_less_Least [of _ ?Q] calculation by (metis less_trans)
  ultimately show ?thesis by blast
qed

lemma mask_value_sensitive_str:
  assumes "is_sensitive m name" "v \<noteq> VNone"
  shows "\<exists>s. mask_value m name v = Inr (VStr s)"
  using mask_value_cases [of m name v] mask_value_sensitive [OF assms] mask_value_total [of m name v]
  by (auto simp: and_then_def split: sum.splits option.splits)


text \<open>
  Claim C2. For a sensitive field and a value other than \<open>None\<close>, the rules are tried in the
  order of the table: the first rule whose fragment occurs in the lowercased field name and
  whose pattern matches a leading part of the string form of the value gives the strategy;
  when no rule has both, the Generic strategy is applied. The result is always a string,
  and the selection raises no error. The matcher of the source accepts a string exactly
  when some leading part of it belongs to the language of the pattern.
\<close>

theorem C2_strategy_selection:
  "(is_sensitive m name \<and> v \<noteq> VNone \<longrightarrow>
      ((\<exists>i < length patterns.
           rule_applies (patterns ! i) name (py_str v)
           \<and> (\<forall>j < i. \<not> rule_applies (patterns ! j) name (py_str v))
           \<and> mask_value m name v =
               and_then (snd (snd (patterns ! i)) (py_str v)) (\<lambda>s. Inr (VStr s)))
       \<or> ((\<forall>j < length patterns. \<not> rule_applies (patterns ! j) name (py_str v))
           \<and> mask_value m name v =
               and_then (mask_generic (py_str v)) (\<lambda>s. Inr (VStr s))))
      \<and> (\<exists>s. mask_value m name v = Inr (VStr s)))
   \<and> (re_match p t \<longleftrightarrow> (\<exists>u. prefix u t \<and> full_match p u))"
proof -
  have sel: "(\<exists>i < length patterns.
           rule_applies (patterns ! i) name (py_str v)
           \<and> (\<forall>j < i. \<not> rule_applies (patterns ! j) name (py_str v))
           \<and> mask_value m name v =
               and_then (snd (snd (patterns ! i)) (py_str v)) (\<lambda>s. Inr (VStr s)))
       \<or> ((\<forall>j < length patterns. \<not> rule_applies (patterns ! j) name (py_str v))
           \<and> mask_value m name v =
               and_then (mask_generic (py_str v)) (\<lambda>s. Inr (VStr s)))"
    if h: "is_sensitive m name" "v \<noteq> VNone"
  proof (cases "\<exists>j < length patterns. rule_applies (patterns ! j) name (py_str v)")
    case True
    then obtain i where i: "i < length patterns" "rule_applies (patterns ! i) name (py_str v)"
      "\<forall>j < i. \<not> rule_applies (patterns ! j) name (py_str v)"
      using first_rule_exists [of patterns "\<lambda>r. rule_applies r name (py_str v)"] by blast
    then show ?thesis
      using mask_value_first_rule [OF h i] by blast
  next
    case False
    then have none: "\<forall>j < length patterns. \<not> rule_applies (patterns ! j) name (py_str v)"
      by blast
    then show ?thesis
      using mask_value_no_rule [OF h none] by blast
  qed
  have "re_match p t \<longleftrightarrow> (\<exists>u. prefix u t \<and> full_match p u)"
    by (simp add: re_match_def match_here_iff)
  then show ?thesis
    using sel mask_value_sensitive_str [of m name v] by blast
qed

lemma default_masker:
  "DataMasker_init default_settings None =
     \<lparr>masked_fields = [''email'', ''phone'', ''ssn'', ''credit_card'', ''password''],
      enabled = True\<rparr>"
  by code_simp

lemma is_sensitive_email: "is_sensitive (DataMasker_init default_settings None) ''Contact_Email''"
  unfolding should_mask_iff [symmetric] by code_simp

theorem C2_strategy_selection_witness:
  "is_sensitive (DataMasker_init default_settings None) ''Contact_Email''
   \<and> (\<exists>s. mask_value (DataMasker_init default_settings None) ''Contact_Email''
             (VStr ''not an address'') = Inr (VStr s))
   \<and> mask_value (DataMasker_init default_settings None) ''Contact_Email''
        (VStr ''not an address'') = Inr (VStr ''n************s'')
   \<and> mask_value (DataMasker_init default_settings None) ''Contact_Email''
        (VStr ''zhang@company.com, and more'') = Inr (VStr ''z***g@company.com, and more'')
   \<and> re_match email_pattern ''zhang@company.com, and more''
   \<and> \<not> full_match email_pattern ''zhang@company.com, and more''"
proof -
  have e1: "mask_value (DataMasker_init default_settings None) ''Contact_Email''
        (VStr ''not an address'') = Inr (VStr ''n************s'')"
    by code_simp
  have e2: "mask_value (DataMasker_init default_settings None) ''Contact_Email''
        (VStr ''zhang@company.com, and more'') = Inr (VStr ''z***g@company.com, and more'')"
    by code_simp
  have e3: "re_match email_pattern ''zhang@company.com, and more''"
    by code_simp
  have e4: "\<not> full_match email_pattern ''zhang@company.com, and more''"
    by code_simp
  show ?thesis
    using is_sensitive_email e1 e2 e3 e4
      C2_strategy_selection [of "DataMasker_init default_settings None" "''Contact_Email''"
        "VStr ''not an address''" email_pattern "''zhang@company.com, and more''"]
    by blast
qed

subsection \<open>The order of the rules\<close>

lemma is_sensitive_ssn_phone: "is_sensitive (DataMasker_init default_settings None) ''ssn_phone''"
  unfolding should_mask_iff [symmetric] by code_simp

lemma patterns_nth:
  "patterns ! 1 = (''phone'', phone_pattern, mask_phone)"
  "patterns ! 3 = (''ssn'', ssn_pattern, mask_ssn)"
  by (simp_all add: patterns_def numeral_3_eq_3)

lemma ssn_phone_applies:
  "rule_applies (patterns ! 1) ''ssn_phone'' ''0912345678''"
  "rule_applies (patterns ! 3) ''ssn_phone'' ''0912345678''"
  unfolding patterns_nth rule_applies_code by code_simp+

text \<open>
  Claim C10. The table lists the rules in the order email, phone, credit card, ssn. When
  two rules both have their fragment in the lowercased field name and their pattern
  matching the value, the strategy applied is that of the earliest such rule, never the
  later one: the field \<open>ssn_phone\<close> with the value \<open>0912345678\<close> is masked as a phone number.
\<close>

theorem C10_first_rule_wins:
  "map fst patterns = [''email'', ''phone'', ''credit_card'', ''ssn'']
   \<and> (is_sensitive m name \<and> v \<noteq> VNone \<and> i < j \<and> j < length patterns
        \<and> rule_applies (patterns ! i) name (py_str v)
        \<and> rule_applies (patterns ! j) name (py_str v) \<longrightarrow>
        (\<exists>k \<le> i. rule_applies (patterns ! k) name (py_str v)
            \<and> (\<forall>l < k. \<not> rule_applies (patterns ! l) name (py_str v))
            \<and> mask_value m name v =
                and_then (snd (snd (patterns ! k)) (py_str v)) (\<lambda>s. Inr (VStr s))))
   \<and> mask_value (DataMasker_init default_settings None) ''ssn_phone'' (VStr ''0912345678'')
       = Inr (VStr ''09******78'')
   \<and> mask_phone ''0912345678'' = Inr ''09******78''
   \<and> mask_ssn ''0912345678'' = Inr ''***-**-5678''"
proof -
  have order: "map fst patterns = [''email'', ''phone'', ''credit_card'', ''ssn'']"
    by (simp add: patterns_def)
  have first: "\<exists>k \<le> i. rule_applies (patterns ! k) name (py_str v)
            \<and> (\<forall>l < k. \<not> rule_applies (patterns ! l) name (py_str v))
            \<and> mask_value m name v =
                and_then (snd (snd (patterns ! k)) (py_str v)) (\<lambda>s. Inr (VStr s))"
    if h: "is_sensitive m name" "v \<noteq> VNone" and ij: "i < j" "j < length patterns"
      and ai: "rule_applies (patterns ! i) name (py_str v)"
  proof -
    have "\<exists>j < length patterns. rule_applies (patterns ! j) name (py_str v)"
      using ij ai by (intro exI [of _ i]) simp
    then obtain k where k: "k < length patterns" "rule_applies (patterns ! k) name (py_str v)"
      "\<forall>l < k. \<not> rule_applies (patterns ! l) name (py_str v)"
      using first_rule_exists [of patterns "\<lambda>r. rule_applies r name (py_str v)"] by blast
    have "k \<le> i"
    proof (rule ccontr)
      assume "\<not> k \<le> i"
      then have "i < k" by simp
      then show False using k(3) ai by blast
    qed
    then show ?thesis
      using k mask_value_first_rule [OF h k] by blast
  qed
  have e1: "mask_value (DataMasker_init default_settings None) ''ssn_phone'' (VStr ''0912345678'')
       = Inr (VStr ''09******78'')"
    by code_simp
  have e2: "mask_phone ''0912345678'' = Inr ''09******78''"
    by code_simp
  have e3: "mask_ssn ''0912345678'' = Inr ''***-**-5678''"
    by code_simp
  have imp: "is_sensitive m name \<and> v \<noteq> VNone \<and> i < j \<and> j < length patterns
        \<and> rule_applies (patterns ! i) name (py_str v)
        \<and> rule_applies (patterns ! j) name (py_str v) \<longrightarrow>
        (\<exists>k \<le> i. rule_applies (patterns ! k) name (py_str v)
            \<and> (\<forall>l < k. \<not> rule_applies (patterns ! l) name (py_str v))
            \<and> mask_value m name v =
                and_then (snd (snd (patterns ! k)) (py_str v)) (\<lambda>s. Inr (VStr s)))"
  proof
    assume a: "is_sensitive m name \<and> v \<noteq> VNone \<and> i < j \<and> j < length patterns
        \<and> rule_applies (patterns ! i) name (py_str v)
        \<and> rule_applies (patterns ! j) name (py_str v)"
    show "\<exists>k \<le> i. rule_applies (patterns ! k) name (py_str v)
            \<and> (\<forall>l < k. \<not> rule_applies (patterns ! l) name (py_str v))
            \<and> mask_value m name v =
                and_then (snd (snd (patterns ! k)) (py_str v)) (\<lambda>s. Inr (VStr s))"
      by (rule first) (use a in simp_all)
  qed
  from order imp e1 e2 e3 show ?thesis
    by (intro conjI)
qed

theorem C10_first_rule_wins_witness:
  "is_sensitive (DataMasker_init default_settings None) ''ssn_phone''
   \<and> rule_applies (patterns ! 1) ''ssn_phone'' ''0912345678''
   \<and> rule_applies (patterns ! 3) ''ssn_phone'' ''0912345678''
   \<and> (\<exists>k \<le> 1. rule_applies (patterns ! k) ''ssn_phone'' ''0912345678''
          \<and> mask_value (DataMasker_init default_settings None) ''ssn_phone''
               (VStr ''0912345678'')
             = and_then (snd (snd (patterns ! k)) ''0912345678'') (\<lambda>s. Inr (VStr s)))"
proof -
  have len: "(1::nat) < 3" "(3::nat) < length patterns"
    by (simp_all add: patterns_def)
  have ne: "VStr ''0912345678'' \<noteq> VNone" by simp
  have str: "py_str (VStr ''0912345678'') = ''0912345678''" by simp
  note t = C10_first_rule_wins [of "DataMasker_init default_settings None" "''ssn_phone''"
        "VStr ''0912345678''" 1 3, unfolded str]
  from t have imp: "is_sensitive (DataMasker_init default_settings None) ''ssn_phone''
        \<and> VStr ''0912345678'' \<noteq> VNone \<and> (1::nat) < 3 \<and> 3 < length patterns
        \<and> rule_applies (patterns ! 1) ''ssn_phone'' ''0912345678''
        \<and> rule_applies (patterns ! 3) ''ssn_phone'' ''0912345678'' \<longrightarrow>
        (\<exists>k \<le> 1. rule_applies (patterns ! k) ''ssn_phone'' ''0912345678''
            \<and> (\<forall>l < k. \<not> rule_applies (patterns ! l) ''ssn_phone'' ''0912345678'')
            \<and> mask_value (DataMasker_init default_settings None) ''ssn_phone''
                 (VStr ''0912345678'') =
                and_then (snd (snd (patterns ! k)) ''0912345678'') (\<lambda>s. Inr (VStr s)))"
    by (elim conjE)
  have "\<exists>k \<le> 1. rule_applies (patterns ! k) ''ssn_phone'' ''0912345678''
            \<and> (\<forall>l < k. \<not> rule_applies (patterns ! l) ''ssn_phone'' ''0912345678'')
            \<and> mask_value (DataMasker_init default_settings None) ''ssn_phone''
                 (VStr ''0912345678'') =
                and_then (snd (snd (patterns ! k)) ''0912345678'') (\<lambda>s. Inr (VStr s))"
    using imp is_sensitive_ssn_phone ne len ssn_phone_applies by (elim impE) (intro conjI)
  then have "\<exists>k \<le> 1. rule_applies (patterns ! k) ''ssn_phone'' ''0912345678''
          \<and> mask_value (DataMasker_init default_settings None) ''ssn_phone''
               (VStr ''0912345678'')
             = and_then (snd (snd (patterns ! k)) ''0912345678'') (\<lambda>s. Inr (VStr s))"
    by (elim exE conjE) (intro exI conjI)
  with is_sensitive_ssn_phone ssn_phone_applies show ?thesis
    by (intro conjI)
qed

subsection \<open>Sensitive fields\<close>

lemma mask_value_not_sensitive: "\<not> is_sensitive m name \<Longrightarrow> mask_value m name v = Inr v"
  unfolding should_mask_iff [symmetric] by (auto simp: mask_value_def Let_def)

lemma emailing_list_id_sensitive:
  assumes "enabled m" "''email'' \<in> set (masked_fields m)"
  shows "is_sensitive m ''emailing_list_id''"
proof -
  have "py_in ''email'' (lower ''emailing_list_id'')" by code_simp
  then have "sublist ''email'' (lower ''emailing_list_id'')" by (simp only: py_in_sublist)
  then show ?thesis using assms unfolding is_sensitive_def by blast
qed

lemma str_12345: "py_str (VInt 12345) = ''12345''"
  by (simp add: str_of_int_def digits_of.simps digit_char_def)

lemma emailing_list_id_rule:
  "find (\<lambda>r. rule_applies r ''emailing_list_id'' (py_str (VInt 12345))) patterns = None"
proof -
  have a: "\<not> re_match email_pattern (py_str (VInt 12345))"
    unfolding str_12345 by code_simp
  have b: "\<not> py_in ''phone'' (lower ''emailing_list_id'')" by code_simp
  have c: "\<not> py_in ''credit_card'' (lower ''emailing_list_id'')" by code_simp
  have d: "\<not> py_in ''ssn'' (lower ''emailing_list_id'')" by code_simp
  have "\<not> rule_applies r ''emailing_list_id'' (py_str (VInt 12345))" if "r \<in> set patterns" for r
  proof -
    from that consider "r = (''email'', email_pattern, mask_email)"
      | "r = (''phone'', phone_pattern, mask_phone)"
      | "r = (''credit_card'', credit_card_pattern, mask_credit_card)"
      | "r = (''ssn'', ssn_pattern, mask_ssn)"
      unfolding patterns_def by auto
    then show ?thesis
    proof cases
      case 1
      then show ?thesis unfolding 1 rule_applies_code using a by blast
    next
      case 2
      then show ?thesis unfolding 2 rule_applies_code using b by blast
    next
      case 3
      then show ?thesis unfolding 3 rule_applies_code using c by blast
    next
      case 4
      then show ?thesis unfolding 4 rule_applies_code using d by blast
    qed
  qed
  then show ?thesis unfolding find_None_iff by blast
qed

lemma emailing_list_id_generic: "mask_generic (py_str (VInt 12345)) = Inr ''1***5''"
  unfolding str_12345 by code_simp

lemma emailing_list_id_masked:
  assumes "enabled m" "''email'' \<in> set (masked_fields m)"
  shows "mask_value m ''emailing_list_id'' (VInt 12345) = Inr (VStr ''1***5'')"
proof -
  have ne: "VInt 12345 \<noteq> VNone" by simp
  have "mask_value m ''emailing_list_id'' (VInt 12345) =
     and_then (case find (\<lambda>r. rule_applies r ''emailing_list_id'' (py_str (VInt 12345))) patterns of
                 None \<Rightarrow> mask_generic (py_str (VInt 12345))
               | Some r \<Rightarrow> snd (snd r) (py_str (VInt 12345)))
       (\<lambda>s. Inr (VStr s))"
    by (rule mask_value_sensitive [OF emailing_list_id_sensitive [OF assms] ne])
  also have "\<dots> = Inr (VStr ''1***5'')"
    unfolding emailing_list_id_rule emailing_list_id_generic by simp
  finally show ?thesis .
qed

lemma mask_dict_passthrough:
  assumes "wf_value (VDict d)"
  shows "\<exists>out. mask_dict m d = Inr out \<and> leafwise (\<lambda>k x w. (\<not> is_sensitive m k \<longrightarrow> w = x)
                          \<and> (is_sensitive m k \<and> x \<noteq> VNone \<longrightarrow> (\<exists>s. w = VStr s))) d out"
proof -
  obtain out where out: "mask_dict m d = Inr out"
    and rel: "leafwise (\<lambda>k v w. mask_value m k v = Inr w) d out"
    using mask_structure(1) [OF assms] by blast
  have "leafwise (\<lambda>k x w. (\<not> is_sensitive m k \<longrightarrow> w = x)
                          \<and> (is_sensitive m k \<and> x \<noteq> VNone \<longrightarrow> (\<exists>s. w = VStr s))) d out"
  proof (rule leafwise_mono(1) [OF _ rel])
    fix k v w
    assume "mask_value m k v = Inr w"
    then show "(\<not> is_sensitive m k \<longrightarrow> w = v)
                          \<and> (is_sensitive m k \<and> v \<noteq> VNone \<longrightarrow> (\<exists>s. w = VStr s))"
      using mask_value_not_sensitive [of m k v] mask_value_sensitive_str [of m k v] by auto
  qed
  then show ?thesis using out by blast
qed

text \<open>
  Claim C3, as amended. The two guards of \<open>mask_value\<close> hold exactly when masking is enabled
  and some configured fragment is a substring of the lowercased field name. A field that is
  not sensitive keeps its value and a sensitive field with a value other than \<open>None\<close> gets a
  masked string, at every depth that \<open>mask_dict\<close> walks: through mappings and through the
  mappings that are elements of a sequence under a key. A sequence lying directly in a
  sequence is not walked: it is one value of the outer key, whatever the names of the fields
  inside it. The field \<open>emailing_list_id\<close> is sensitive as soon as \<open>email\<close> is a configured
  fragment. As the claim is written, for every nesting depth, it fails below a sequence
  nested in a sequence.
\<close>

theorem C3_sensitive_by_substring:
  "((enabled m \<and> should_mask m (lower name)) \<longleftrightarrow>
      (enabled m \<and> (\<exists>fragment \<in> set (masked_fields m). sublist fragment (lower name))))
   \<and> (\<not> is_sensitive m name \<longrightarrow> mask_value m name v = Inr v)
   \<and> (is_sensitive m field \<and> x \<noteq> VNone \<longrightarrow> (\<exists>s. mask_value m field x = Inr (VStr s)))
   \<and> (enabled m \<and> ''email'' \<in> set (masked_fields m) \<longrightarrow>
        is_sensitive m ''emailing_list_id''
        \<and> mask_value m ''emailing_list_id'' (VInt 12345) = Inr (VStr ''1***5''))
   \<and> (wf_value (VDict d) \<longrightarrow>
        (\<exists>out. mask_dict m d = Inr out
           \<and> leafwise (\<lambda>k x w. (\<not> is_sensitive m k \<longrightarrow> w = x)
                          \<and> (is_sensitive m k \<and> x \<noteq> VNone \<longrightarrow> (\<exists>s. w = VStr s))) d out))"
proof (intro conjI impI)
  show "(enabled m \<and> should_mask m (lower name)) \<longleftrightarrow>
      (enabled m \<and> (\<exists>fragment \<in> set (masked_fields m). sublist fragment (lower name)))"
    using should_mask_iff [of m name] by (simp only: is_sensitive_def)
next
  assume "\<not> is_sensitive m name"
  then show "mask_value m name v = Inr v" by (rule mask_value_not_sensitive)
next
  assume "is_sensitive m field \<and> x \<noteq> VNone"
  then show "\<exists>s. mask_value m field x = Inr (VStr s)"
    using mask_value_sensitive_str by blast
next
  assume "enabled m \<and> ''email'' \<in> set (masked_fields m)"
  then show "is_sensitive m ''emailing_list_id''"
    using emailing_list_id_sensitive by blast
next
  assume "enabled m \<and> ''email'' \<in> set (masked_fields m)"
  then show "mask_value m ''emailing_list_id'' (VInt 12345) = Inr (VStr ''1***5'')"
    using emailing_list_id_masked by blast
next
  assume "wf_value (VDict d)"
  then show "\<exists>out. mask_dict m d = Inr out
           \<and> leafwise (\<lambda>k x w. (\<not> is_sensitive m k \<longrightarrow> w = x)
                          \<and> (is_sensitive m k \<and> x \<noteq> VNone \<longrightarrow> (\<exists>s. w = VStr s))) d out"
    by (rule mask_dict_passthrough)
qed


lemma not_sensitive_department:
  "\<not> is_sensitive (DataMasker_init default_settings None) ''department''"
  unfolding should_mask_iff [symmetric] by code_simp

theorem C3_sensitive_by_substring_witness:
  "\<not> is_sensitive (DataMasker_init default_settings None) ''department''
   \<and> mask_value (DataMasker_init default_settings None) ''department'' (VStr ''sales'')
       = Inr (VStr ''sales'')
   \<and> is_sensitive (DataMasker_init default_settings None) ''Contact_Email''
   \<and> (\<exists>s. mask_value (DataMasker_init default_settings None) ''Contact_Email'' (VInt 7)
            = Inr (VStr s))
   \<and> is_sensitive (DataMasker_init default_settings None) ''emailing_list_id''
   \<and> mask_value (DataMasker_init default_settings None) ''emailing_list_id'' (VInt 12345)
       = Inr (VStr ''1***5'')
   \<and> wf_value (VDict [(''department'', VStr ''sales''),
                       (''staff'', VList [VDict [(''email'', VStr ''a@co.com'')], VInt 3])])
   \<and> (\<exists>out. mask_dict (DataMasker_init default_settings None)
               [(''department'', VStr ''sales''),
                (''staff'', VList [VDict [(''email'', VStr ''a@co.com'')], VInt 3])] = Inr out
          \<and> leafwise (\<lambda>k x w. (\<not> is_sensitive (DataMasker_init default_settings None) k
                                 \<longrightarrow> w = x)
                          \<and> (is_sensitive (DataMasker_init default_settings None) k \<and> x \<noteq> VNone
                                 \<longrightarrow> (\<exists>s. w = VStr s)))
               [(''department'', VStr ''sales''),
                (''staff'', VList [VDict [(''email'', VStr ''a@co.com'')], VInt 3])] out)"
proof -
  have on: "enabled (DataMasker_init default_settings None)
      \<and> ''email'' \<in> set (masked_fields (DataMasker_init default_settings None))"
    by (simp add: default_masker)
  have ne: "VInt 7 \<noteq> VNone" by simp
  have wf: "wf_value (VDict [(''department'', VStr ''sales''),
                       (''staff'', VList [VDict [(''email'', VStr ''a@co.com'')], VInt 3])])"
    by simp
  note t = C3_sensitive_by_substring [of "DataMasker_init default_settings None"
      "''department''" "VStr ''sales''" "''Contact_Email''" "VInt 7"
      "[(''department'', VStr ''sales''),
        (''staff'', VList [VDict [(''email'', VStr ''a@co.com'')], VInt 3])]"]
  from t have "\<not> is_sensitive (DataMasker_init default_settings None) ''department'' \<longrightarrow>
       mask_value (DataMasker_init default_settings None) ''department'' (VStr ''sales'')
       = Inr (VStr ''sales'')"
    by (elim conjE)
  then have a: "mask_value (DataMasker_init default_settings None) ''department'' (VStr ''sales'')
       = Inr (VStr ''sales'')"
    using not_sensitive_department by (rule mp)
  from t is_sensitive_email ne
  have b: "\<exists>s. mask_value (DataMasker_init default_settings None) ''Contact_Email'' (VInt 7)
            = Inr (VStr s)"
    by blast
  from t on
  have c: "is_sensitive (DataMasker_init default_settings None) ''emailing_list_id''
        \<and> mask_value (DataMasker_init default_settings None) ''emailing_list_id'' (VInt 12345)
            = Inr (VStr ''1***5'')"
    by blast
  from t wf
  have d: "\<exists>out. mask_dict (DataMasker_init default_settings None)
               [(''department'', VStr ''sales''),
                (''staff'', VList [VDict [(''email'', VStr ''a@co.com'')], VInt 3])] = Inr out
          \<and> leafwise (\<lambda>k x w. (\<not> is_sensitive (DataMasker_init default_settings None) k
                                 \<longrightarrow> w = x)
                          \<and> (is_sensitive (DataMasker_init default_settings None) k \<and> x \<noteq> VNone
                                 \<longrightarrow> (\<exists>s. w = VStr s)))
               [(''department'', VStr ''sales''),
                (''staff'', VList [VDict [(''email'', VStr ''a@co.com'')], VInt 3])] out"
    by blast
  from not_sensitive_department a is_sensitive_email b c wf d show ?thesis
    by (intro conjI) (elim conjE, assumption)+
qed

theorem C3_sensitive_by_substring_counterexample:
  "wf_value (VDict [(''email'', VList [VList [VDict [(''name'', VStr ''Wang'')]]])])
   \<and> \<not> is_sensitive (DataMasker_init default_settings None) ''name''
   \<and> mask_dict (DataMasker_init default_settings None)
        [(''email'', VList [VList [VDict [(''name'', VStr ''Wang'')]]])]
       = Inr [(''email'', VList [VStr ''[****************]''])]
   \<and> \<not> kept_items (DataMasker_init default_settings None)
          [(''email'', VList [VList [VDict [(''name'', VStr ''Wang'')]]])]
          [(''email'', VList [VStr ''[****************]''])]
   \<and> is_sensitive (DataMasker_init default_settings None) ''email''
   \<and> mask_dict (DataMasker_init default_settings None)
        [(''rows'', VList [VList [VDict [(''email'', VStr ''zhang@company.com'')]]])]
       = Inr [(''rows'', VList [VList [VDict [(''email'', VStr ''zhang@company.com'')]]])]"
proof -
  have a: "\<not> is_sensitive (DataMasker_init default_settings None) ''name''"
    unfolding should_mask_iff [symmetric] by code_simp
  have b: "mask_dict (DataMasker_init default_settings None)
        [(''email'', VList [VList [VDict [(''name'', VStr ''Wang'')]]])]
       = Inr [(''email'', VList [VStr ''[****************]''])]"
    by code_simp
  have c: "is_sensitive (DataMasker_init default_settings None) ''email''"
    unfolding should_mask_iff [symmetric] by code_simp
  have d: "mask_dict (DataMasker_init default_settings None)
        [(''rows'', VList [VList [VDict [(''email'', VStr ''zhang@company.com'')]]])]
       = Inr [(''rows'', VList [VList [VDict [(''email'', VStr ''zhang@company.com'')]]])]"
    by code_simp
  from a b c d show ?thesis by simp
qed

subsection \<open>The empty configuration\<close>

lemma split_on_nonempty: "split_on sep s \<noteq> []"
  by (induction s) (auto split: list.splits)

lemma masked_fields_list_nonempty: "masked_fields_list st \<noteq> []"
  by (simp add: masked_fields_list_def split_on_nonempty)

lemma DataMasker_init_nonempty: "masked_fields (DataMasker_init st mf) \<noteq> []"
  by (cases mf) (simp_all add: DataMasker_init_def masked_fields_list_nonempty)

lemma mask_value_no_fragments: "masked_fields m = [] \<Longrightarrow> mask_value m k v = Inr v"
  by (simp add: mask_value_def should_mask_def Let_def)

lemma empty_setting_fragments:
  "masked_fields_list (default_settings\<lparr>masked_fields_csv := []\<rparr>) = [[]]"
  by (simp add: masked_fields_list_def strip_def lower_def)

text \<open>
  Claim C5. An empty configuration does not give an empty set of fragments. The empty
  setting is split into the one fragment \<open>''''\<close>, which is a substring of every field name,
  so every field is masked; an empty list given to the constructor is replaced by the
  list of the settings. No call of the constructor leaves \<open>masked_fields\<close> empty.
\<close>

theorem C5_empty_configuration:
  "masked_fields (DataMasker_init (default_settings\<lparr>masked_fields_csv := []\<rparr>) None) = [[]]
   \<and> enabled (DataMasker_init (default_settings\<lparr>masked_fields_csv := []\<rparr>) None)
   \<and> mask_value (DataMasker_init (default_settings\<lparr>masked_fields_csv := []\<rparr>) None)
        ''name'' (VStr ''Wang'') = Inr (VStr ''W**g'')
   \<and> DataMasker_init st (Some []) = DataMasker_init st None
   \<and> mask_value (DataMasker_init default_settings (Some []))
        ''email'' (VStr ''zhang@company.com'') = Inr (VStr ''z***g@company.com'')
   \<and> masked_fields (DataMasker_init st mf) \<noteq> []"
proof -
  have a: "masked_fields (DataMasker_init (default_settings\<lparr>masked_fields_csv := []\<rparr>) None) = [[]]"
    by (simp add: DataMasker_init_def empty_setting_fragments)
  have b: "enabled (DataMasker_init (default_settings\<lparr>masked_fields_csv := []\<rparr>) None)"
    by (simp add: DataMasker_init_def default_settings_def)
  have c: "mask_value (DataMasker_init (default_settings\<lparr>masked_fields_csv := []\<rparr>) None)
        ''name'' (VStr ''Wang'') = Inr (VStr ''W**g'')"
    by code_simp
  have d: "DataMasker_init st (Some []) = DataMasker_init st None"
    by (simp add: DataMasker_init_def)
  have e: "mask_value (DataMasker_init default_settings (Some []))
        ''email'' (VStr ''zhang@company.com'') = Inr (VStr ''z***g@company.com'')"
    by code_simp
  from a b c d e DataMasker_init_nonempty [of st mf] show ?thesis
    by (intro conjI)
qed

theorem C5_empty_configuration_witness:
  "mask_value (DataMasker_init (default_settings\<lparr>masked_fields_csv := []\<rparr>) None)
        ''name'' (VStr ''Wang'') = Inr (VStr ''W**g'')
   \<and> mask_value (DataMasker_init default_settings (Some []))
        ''email'' (VStr ''zhang@company.com'') = Inr (VStr ''z***g@company.com'')
   \<and> masked_fields (DataMasker_init default_settings (Some [])) \<noteq> []"
  using C5_empty_configuration [of default_settings "Some []"] by (elim conjE) (intro conjI)

subsection \<open>The National ID strategy\<close>

lemma match_here_tail: "match_here (it # rest) s \<Longrightarrow> \<exists>k. match_here rest (drop k s)"
proof -
  obtain cls lo hi where it: "it = Item cls lo hi" by (cases it)
  assume "match_here (it # rest) s"
  then show ?thesis unfolding it match_here_cons by blast
qed

lemma match_four_digits:
  assumes "match_here [Item is_digit 4 (Some 4)] s"
  shows "4 \<le> length s \<and> (\<forall>c \<in> set (take 4 s). is_digit c)"
proof -
  from assms obtain k where "4 \<le> k" "k \<le> 4" "k \<le> length s" "\<forall>c \<in> set (take k s). is_digit c"
    unfolding match_here_cons by auto
  then show ?thesis by (cases "k = 4") auto
qed

lemma digit_not_sep: "is_digit c \<Longrightarrow> c \<noteq> CHR ''-'' \<and> \<not> is_space c"
  by (auto simp: is_digit_def is_space_def Let_def)

lemma filter_drop_le: "length (filter P (drop k s)) \<le> length (filter P s)"
proof -
  have "filter P s = filter P (take k s) @ filter P (drop k s)"
    by (metis append_take_drop_id filter_append)
  then show ?thesis by simp
qed

lemma ssn_match_length:
  assumes "re_match ssn_pattern v"
  shows "4 \<le> length (filter (\<lambda>c. c \<noteq> CHR ''-'' \<and> \<not> is_space c) v)"
proof -
  let ?P = "\<lambda>c. c \<noteq> CHR ''-'' \<and> \<not> is_space c"
  from assms have "match_here
     [Item is_digit 3 (Some 3), Item sep_class 0 (Some 1),
      Item is_digit 2 (Some 2), Item sep_class 0 (Some 1),
      Item is_digit 4 (Some 4)] v"
    by (simp only: re_match_def ssn_pattern_def)
  then obtain k1 where "match_here
     [Item sep_class 0 (Some 1), Item is_digit 2 (Some 2), Item sep_class 0 (Some 1),
      Item is_digit 4 (Some 4)] (drop k1 v)"
    using match_here_tail by blast
  then obtain k2 where "match_here
     [Item is_digit 2 (Some 2), Item sep_class 0 (Some 1),
      Item is_digit 4 (Some 4)] (drop k2 (drop k1 v))"
    using match_here_tail by blast
  then obtain k3 where "match_here
     [Item sep_class 0 (Some 1), Item is_digit 4 (Some 4)] (drop k3 (drop k2 (drop k1 v)))"
    using match_here_tail by blast
  then obtain k4 where "match_here
     [Item is_digit 4 (Some 4)] (drop k4 (drop k3 (drop k2 (drop k1 v))))"
    using match_here_tail by blast
  then obtain k where m: "match_here [Item is_digit 4 (Some 4)] (drop k v)"
    by (auto simp: drop_drop)
  let ?t = "drop k v"
  have len: "4 \<le> length ?t" and dig: "\<forall>c \<in> set (take 4 ?t). is_digit c"
    using match_four_digits [OF m] by blast+
  have "filter ?P (take 4 ?t) = take 4 ?t"
    using dig digit_not_sep by (auto simp: filter_id_conv)
  then have "length (filter ?P (take 4 ?t)) = 4" using len by simp
  moreover have "length (filter ?P (take 4 ?t)) \<le> length (filter ?P ?t)"
    by (metis append_take_drop_id filter_append length_append le_add1)
  moreover have "length (filter ?P ?t) \<le> length (filter ?P v)"
    by (rule filter_drop_le)
  ultimately show ?thesis by linarith
qed

lemma mask_ssn_closed_form:
  "mask_ssn v =
     Inr (''***-**-'' @ drop (length (filter (\<lambda>c. c \<noteq> CHR ''-'' \<and> \<not> is_space c) v) - 4)
                          (filter (\<lambda>c. c \<noteq> CHR ''-'' \<and> \<not> is_space c) v))"
  by (simp only: mask_ssn_def ssn_strip py_slice_from_last4)

lemma mask_ssn_after_match:
  assumes "re_match ssn_pattern v"
  shows "\<exists>a b c d. mask_ssn v = Inr (''***-**-'' @ [a, b, c, d])"
proof -
  let ?s = "filter (\<lambda>c. c \<noteq> CHR ''-'' \<and> \<not> is_space c) v"
  have "length (drop (length ?s - 4) ?s) = 4"
    using ssn_match_length [OF assms] by simp
  then obtain a b c d where "drop (length ?s - 4) ?s = [a, b, c, d]"
    using length_four by blast
  then show ?thesis using mask_ssn_closed_form [of v] by simp
qed

lemma ssn_counter_facts:
  "mask_ssn ''12'' = Inr ''***-**-12''"
  "\<not> ssn_fixed_shape ''***-**-12''"
  "mask_ssn ''abcdefgh'' = Inr ''***-**-efgh''"
  "\<not> ssn_fixed_shape ''***-**-efgh''"
  "mask_value (DataMasker_init default_settings None) ''ssn'' (VStr ''123-45-6789 ext'')
     = Inr (VStr ''***-**-9ext'')"
  "\<not> ssn_fixed_shape ''***-**-9ext''"
  by code_simp+


text \<open>
  Claim C7, as amended. The SSN strategy returns \<open>***-**-\<close> followed by the last four
  characters that remain of its input once \<open>-\<close> and white space are removed, and by all of
  them when fewer than four remain. When the value matches the ssn pattern, which is when
  \<open>mask_value\<close> calls the strategy, exactly four characters follow. For an input made of
  digits and separators with at least four digits they are its last four digits. As the
  claim is written, with four digits after \<open>***-**-\<close> for every input string, it fails on
  short inputs and on inputs with other characters.
\<close>

theorem C7_mask_ssn:
  "mask_ssn v =
     Inr (''***-**-'' @ drop (length (filter (\<lambda>c. c \<noteq> CHR ''-'' \<and> \<not> is_space c) v) - 4)
                          (filter (\<lambda>c. c \<noteq> CHR ''-'' \<and> \<not> is_space c) v))
   \<and> (re_match ssn_pattern u \<longrightarrow> (\<exists>a b c d. mask_ssn u = Inr (''***-**-'' @ [a, b, c, d])))
   \<and> ((\<forall>c \<in> set w. is_digit c \<or> c = CHR ''-'' \<or> is_space c) \<and> 4 \<le> length (filter is_digit w)
        \<longrightarrow> (\<exists>a b c d. mask_ssn w = Inr (''***-**-'' @ [a, b, c, d])
               \<and> is_digit a \<and> is_digit b \<and> is_digit c \<and> is_digit d
               \<and> suffix [a, b, c, d] (filter is_digit w)))
   \<and> mask_ssn ''123-45-6789'' = Inr ''***-**-6789''"
proof (intro conjI impI)
  show "mask_ssn v =
     Inr (''***-**-'' @ drop (length (filter (\<lambda>c. c \<noteq> CHR ''-'' \<and> \<not> is_space c) v) - 4)
                          (filter (\<lambda>c. c \<noteq> CHR ''-'' \<and> \<not> is_space c) v))"
    by (rule mask_ssn_closed_form)
next
  assume "re_match ssn_pattern u"
  then show "\<exists>a b c d. mask_ssn u = Inr (''***-**-'' @ [a, b, c, d])"
    by (rule mask_ssn_after_match)
next
  assume "(\<forall>c \<in> set w. is_digit c \<or> c = CHR ''-'' \<or> is_space c)
      \<and> 4 \<le> length (filter is_digit w)"
  then show "\<exists>a b c d. mask_ssn w = Inr (''***-**-'' @ [a, b, c, d])
               \<and> is_digit a \<and> is_digit b \<and> is_digit c \<and> is_digit d
               \<and> suffix [a, b, c, d] (filter is_digit w)"
    using mask_ssn_last_four [of w w] by blast
next
  show "mask_ssn ''123-45-6789'' = Inr ''***-**-6789''"
    using mask_ssn_last_four [of v v] by blast
qed

theorem C7_mask_ssn_witness:
  "list_all (\<lambda>c. is_digit c \<or> c = CHR ''-'' \<or> is_space c) ''078 05 1120''
   \<and> 4 \<le> length (filter is_digit ''078 05 1120'')
   \<and> re_match ssn_pattern ''078 05 1120''
   \<and> mask_ssn ''078 05 1120'' = Inr ''***-**-1120''
   \<and> (\<exists>a b c d. mask_ssn ''078 05 1120'' = Inr (''***-**-'' @ [a, b, c, d]))
   \<and> mask_ssn ''12'' = Inr ''***-**-12''"
proof -
  have h: "(\<forall>c \<in> set ''078 05 1120''. is_digit c \<or> c = CHR ''-'' \<or> is_space c)
     \<and> 4 \<le> length (filter is_digit ''078 05 1120'')"
    by (simp add: is_digit_def is_space_def)
  have l: "list_all (\<lambda>c. is_digit c \<or> c = CHR ''-'' \<or> is_space c) ''078 05 1120''"
    unfolding list_all_iff using h by blast
  have m: "re_match ssn_pattern ''078 05 1120''" by code_simp
  have e: "filter (\<lambda>c. c \<noteq> CHR ''-'' \<and> \<not> is_space c) ''078 05 1120'' = ''078051120''"
    "filter (\<lambda>c. c \<noteq> CHR ''-'' \<and> \<not> is_space c) ''12'' = ''12''"
    by (simp_all add: is_space_def)
  note t1 = C7_mask_ssn [of "''078 05 1120''" "''078 05 1120''" "''078 05 1120''", unfolded e]
  note t2 = C7_mask_ssn [of "''12''" "''12''" "''12''", unfolded e]
  from t1 have a: "mask_ssn ''078 05 1120'' = Inr ''***-**-1120''" by simp
  from t1 m have b: "\<exists>a b c d. mask_ssn ''078 05 1120'' = Inr (''***-**-'' @ [a, b, c, d])"
    by blast
  from t2 have c: "mask_ssn ''12'' = Inr ''***-**-12''" by simp
  from l h m a b c show ?thesis by blast
qed

theorem C7_mask_ssn_counterexample:
  "mask_ssn ''12'' = Inr ''***-**-12''
   \<and> \<not> ssn_fixed_shape ''***-**-12''
   \<and> mask_ssn ''abcdefgh'' = Inr ''***-**-efgh''
   \<and> \<not> ssn_fixed_shape ''***-**-efgh''
   \<and> mask_value (DataMasker_init default_settings None) ''ssn'' (VStr ''123-45-6789 ext'')
       = Inr (VStr ''***-**-9ext'')
   \<and> \<not> ssn_fixed_shape ''***-**-9ext''"
  using ssn_counter_facts by (intro conjI)

subsection \<open>Within the limits of the interpreter\<close>

lemma nesting_le_foldr: "x \<in> set xs \<Longrightarrow> f x \<le> foldr max (map f xs) (0::nat)"
  by (induction xs) auto

lemma nesting_element: "x \<in> set xs \<Longrightarrow> nesting x < nesting (VList xs)"
  using nesting_le_foldr [of x xs nesting] by simp

lemma nesting_entry: "(k, v) \<in> set kvs \<Longrightarrow> nesting v < nesting (VDict kvs)"
  using nesting_le_foldr [of "(k, v)" kvs "\<lambda>kv. nesting (snd kv)"] by simp

lemma py_str_limited_ok:
  "nesting v \<le> frames \<Longrightarrow> \<not> too_many_digits v \<Longrightarrow> py_str_limited frames v = Inr (py_str v)"
  by (simp add: py_str_limited_def)

lemma mask_value_limited_ok:
  "nesting v \<le> frames \<Longrightarrow> \<not> too_many_digits v \<Longrightarrow>
     mask_value_limited frames m k v = mask_value m k v"
  by (simp add: mask_value_limited_def mask_value_def py_str_limited_ok Let_def)

lemma mask_dict_limited_ok:
  shows "nesting (VDict data) \<le> frames \<Longrightarrow> \<not> too_many_digits (VDict data) \<Longrightarrow>
           mask_dict_limited frames m data = mask_dict m data"
    and "(\<forall>kv \<in> set data'. nesting (snd kv) \<le> frames' \<and> \<not> too_many_digits (snd kv)) \<Longrightarrow>
           mask_items_loop_limited frames' m result data' = mask_items_loop m result data'"
    and "(\<forall>x \<in> set xs. nesting x \<le> frames'' \<and> \<not> too_many_digits x) \<Longrightarrow>
           mask_elements_limited frames'' m key xs = mask_elements m key xs"
proof (induction frames m data and frames' m result data' and frames'' m key xs
    rule: mask_dict_limited_mask_items_loop_limited_mask_elements_limited.induct)
  case (1 m data)
  then show ?case by simp
next
  case (2 frames m data)
  have "\<forall>kv \<in> set data. nesting (snd kv) \<le> frames \<and> \<not> too_many_digits (snd kv)"
  proof
    fix kv assume kv: "kv \<in> set data"
    obtain k v where e: "kv = (k, v)" by (cases kv)
    have "nesting v < nesting (VDict data)" using kv e nesting_entry by blast
    moreover have "\<not> too_many_digits v"
      using "2.prems"(2) kv e by (auto simp: list_ex_iff)
    ultimately show "nesting (snd kv) \<le> frames \<and> \<not> too_many_digits (snd kv)"
      using "2.prems"(1) e by simp
  qed
  then show ?case using "2.IH" by simp
next
  case (3 frames m result)
  then show ?case by simp
next
  case (4 frames m result key v rest)
  have v: "nesting v \<le> frames" "\<not> too_many_digits v"
    and rest: "\<forall>kv \<in> set rest. nesting (snd kv) \<le> frames \<and> \<not> too_many_digits (snd kv)"
    using "4.prems" by simp_all
  have first: "(case v of
          VDict d \<Rightarrow> and_then (mask_dict_limited frames m d) (\<lambda>r. Inr (VDict r))
        | VList xs \<Rightarrow> and_then (mask_elements_limited frames m key xs) (\<lambda>r. Inr (VList r))
        | _ \<Rightarrow> mask_value_limited frames m key v)
      = (case v of
          VDict d \<Rightarrow> and_then (mask_dict m d) (\<lambda>r. Inr (VDict r))
        | VList xs \<Rightarrow> and_then (mask_elements m key xs) (\<lambda>r. Inr (VList r))
        | _ \<Rightarrow> mask_value m key v)"
  proof (cases v)
    case (VDict d)
    then show ?thesis using "4.IH"(2) [OF VDict] v by simp
  next
    case (VList ys)
    have "\<forall>x \<in> set ys. nesting x \<le> frames \<and> \<not> too_many_digits x"
    proof
      fix x assume x: "x \<in> set ys"
      have "nesting x < nesting (VList ys)" using x by (rule nesting_element)
      moreover have "\<not> too_many_digits x" using v(2) VList x by (auto simp: list_ex_iff)
      ultimately show "nesting x \<le> frames \<and> \<not> too_many_digits x" using v(1) VList by simp
    qed
    then show ?thesis using "4.IH"(1) [OF VList] VList by simp
  qed (use v mask_value_limited_ok [of v frames m key] in simp_all)
  show ?case
    using first "4.IH"(3) rest by simp
next
  case (5 frames m key)
  then show ?case by simp
next
  case (6 frames m key item rest)
  have i: "nesting item \<le> frames" "\<not> too_many_digits item"
    and rest: "\<forall>x \<in> set rest. nesting x \<le> frames \<and> \<not> too_many_digits x"
    using "6.prems" by simp_all
  have first: "(case item of
          VDict d \<Rightarrow> and_then (mask_dict_limited frames m d) (\<lambda>r. Inr (VDict r))
        | _ \<Rightarrow> mask_value_limited frames m key item)
      = (case item of
          VDict d \<Rightarrow> and_then (mask_dict m d) (\<lambda>r. Inr (VDict r))
        | _ \<Rightarrow> mask_value m key item)"
  proof (cases item)
    case (VDict d)
    then show ?thesis using "6.IH"(1) [OF VDict] i by simp
  qed (use i mask_value_limited_ok [of item frames m key] in simp_all)
  show ?case
    using first "6.IH"(2) rest by simp
qed

lemma too_many_digits_power: "too_many_digits (VInt (10 ^ max_str_digits))"
  by simp

lemma nested_record_raises: "mask_dict_limited n m (nested_record n) = Inl RecursionError"
  by (induction n) simp_all

lemma nested_record_wf: "wf_value (VDict (nested_record n))"
  by (induction n) simp_all

lemma mask_dict_limited_big_int:
  assumes "enabled m" "should_mask m (lower key)"
  shows "mask_dict_limited (Suc frames) m [(key, VInt (10 ^ max_str_digits))] = Inl ValueError"
  using assms
  by (simp add: mask_value_limited_def py_str_limited_def del: too_many_digits.simps
      add: too_many_digits_power)


text \<open>
  Claim C9, as amended. Every strategy returns a result on every string, with the all-star
  fallback of a phone or card number that has fewer than four characters besides
  separators. \<open>mask_value\<close> and \<open>mask_dict\<close> return a result and raise no error on every
  structured value whose nesting is within the levels that the interpreter's stack still
  allows and that holds no integer of more than 4300 digits; there they agree with the
  functions without bounds, and a scalar of another type goes through the strategies as
  its string form. As the claim is written, for every structured value, it fails: an
  integer of 4301 digits under a sensitive key raises \<^verbatim>\<open>ValueError\<close>, and a record nested
  deeper than the recursion limit raises \<^verbatim>\<open>RecursionError\<close>.
\<close>

theorem C9_total_within_limits:
  "(\<exists>r. mask_email s = Inr r) \<and> (\<exists>r. mask_phone s = Inr r)
   \<and> (\<exists>r. mask_credit_card s = Inr r) \<and> (\<exists>r. mask_ssn s = Inr r)
   \<and> (\<exists>r. mask_generic s = Inr r)
   \<and> (nesting v \<le> frames \<and> \<not> too_many_digits v \<longrightarrow>
        (\<exists>w. mask_value_limited frames m k v = Inr w \<and> mask_value m k v = Inr w))
   \<and> (nesting (VDict d) \<le> frames \<and> \<not> too_many_digits (VDict d) \<longrightarrow>
        (\<exists>out. mask_dict_limited frames m d = Inr out \<and> mask_dict m d = Inr out))
   \<and> (length (filter (\<lambda>c. \<not> sep_class c) t) < 4 \<longrightarrow>
        mask_phone t = Inr (replicate (length (filter (\<lambda>c. \<not> sep_class c) t)) CHR ''*'')
        \<and> mask_credit_card t = Inr (replicate (length (filter (\<lambda>c. \<not> sep_class c) t)) CHR ''*''))
   \<and> (enabled m \<and> should_mask m (lower k) \<longrightarrow>
        mask_value_limited frames m k (VOther a b) = mask_value_limited frames m k (VStr a))"
proof -
  have value_ok: "\<exists>w. mask_value_limited frames m k v = Inr w \<and> mask_value m k v = Inr w"
    if "nesting v \<le> frames \<and> \<not> too_many_digits v"
    using that mask_value_limited_ok [of v frames m k] mask_value_total [of m k v] by auto
  have dict_ok: "\<exists>out. mask_dict_limited frames m d = Inr out \<and> mask_dict m d = Inr out"
    if "nesting (VDict d) \<le> frames \<and> \<not> too_many_digits (VDict d)"
    using that mask_dict_limited_ok(1) [of d frames m] mask_dict_total_aux(1) [of m d] by auto
  have other: "mask_value_limited frames m k (VOther a b) = mask_value_limited frames m k (VStr a)"
    if "enabled m \<and> should_mask m (lower k)"
    using that by (simp add: mask_value_limited_def py_str_limited_def)
  show ?thesis
    using mask_email_total [of s] mask_phone_total [of s] mask_credit_card_total [of s]
      mask_ssn_total [of s] mask_generic_total [of s] value_ok dict_ok
      mask_phone_short [of t] mask_credit_card_short [of t] other
    by blast
qed

theorem C9_total_within_limits_witness:
  "nesting (VDict [(''phone'', VOther ''3.5'' ''3.5''), (''ssn'', VStr ''1''),
                   (''staff'', VList [VDict [(''email'', VStr ''@'')]])]) \<le> recursion_limit
   \<and> \<not> too_many_digits (VDict [(''phone'', VOther ''3.5'' ''3.5''), (''ssn'', VStr ''1''),
                   (''staff'', VList [VDict [(''email'', VStr ''@'')]])])
   \<and> (\<exists>out. mask_dict_limited recursion_limit (DataMasker_init default_settings None)
               [(''phone'', VOther ''3.5'' ''3.5''), (''ssn'', VStr ''1''),
                (''staff'', VList [VDict [(''email'', VStr ''@'')]])] = Inr out)
   \<and> (\<exists>w. mask_value_limited recursion_limit (DataMasker_init default_settings None)
             ''phone'' (VStr ''1-2'') = Inr w)
   \<and> mask_phone ''1-2'' = Inr ''**'' \<and> mask_credit_card ''1-2'' = Inr ''**''
   \<and> mask_value_limited recursion_limit (DataMasker_init default_settings None) ''phone''
         (VOther ''3.5'' ''3.5'')
       = mask_value_limited recursion_limit (DataMasker_init default_settings None) ''phone''
         (VStr ''3.5'')"
proof -
  have n: "nesting (VDict [(''phone'', VOther ''3.5'' ''3.5''), (''ssn'', VStr ''1''),
                   (''staff'', VList [VDict [(''email'', VStr ''@'')]])]) \<le> recursion_limit"
    by (simp add: recursion_limit_def)
  have d: "\<not> too_many_digits (VDict [(''phone'', VOther ''3.5'' ''3.5''), (''ssn'', VStr ''1''),
                   (''staff'', VList [VDict [(''email'', VStr ''@'')]])])"
    by simp
  have nv: "nesting (VStr ''1-2'') \<le> recursion_limit \<and> \<not> too_many_digits (VStr ''1-2'')"
    by simp
  have a: "length (filter (\<lambda>c. \<not> sep_class c) ''1-2'') = 2"
    by (simp add: sep_class_def is_space_def)
  have b: "enabled (DataMasker_init default_settings None)
     \<and> should_mask (DataMasker_init default_settings None) (lower ''phone'')"
    by code_simp
  note t = C9_total_within_limits [of "''1-2''" "VStr ''1-2''" recursion_limit
        "DataMasker_init default_settings None" "''phone''"
        "[(''phone'', VOther ''3.5'' ''3.5''), (''ssn'', VStr ''1''),
          (''staff'', VList [VDict [(''email'', VStr ''@'')]])]"
        "''1-2''" "''3.5''" "''3.5''"]
  from t n d have r: "\<exists>out. mask_dict_limited recursion_limit (DataMasker_init default_settings None)
               [(''phone'', VOther ''3.5'' ''3.5''), (''ssn'', VStr ''1''),
                (''staff'', VList [VDict [(''email'', VStr ''@'')]])] = Inr out"
    by blast
  from t nv have rv: "\<exists>w. mask_value_limited recursion_limit (DataMasker_init default_settings None)
             ''phone'' (VStr ''1-2'') = Inr w"
    by blast
  have "length (filter (\<lambda>c. \<not> sep_class c) ''1-2'') < 4" unfolding a by simp
  with t have "mask_phone ''1-2'' = Inr (replicate (length (filter (\<lambda>c. \<not> sep_class c) ''1-2'')) CHR ''*'')
        \<and> mask_credit_card ''1-2'' = Inr (replicate (length (filter (\<lambda>c. \<not> sep_class c) ''1-2'')) CHR ''*'')"
    by blast
  then have p: "mask_phone ''1-2'' = Inr ''**'' \<and> mask_credit_card ''1-2'' = Inr ''**''"
    unfolding a by (simp add: numeral_2_eq_2)
  from t b have q: "mask_value_limited recursion_limit (DataMasker_init default_settings None) ''phone''
         (VOther ''3.5'' ''3.5'')
       = mask_value_limited recursion_limit (DataMasker_init default_settings None) ''phone''
         (VStr ''3.5'')"
    by blast
  from n d r rv p q show ?thesis by blast
qed

theorem C9_total_counterexample:
  "wf_value (VDict [(''password'', VInt (10 ^ max_str_digits))])
   \<and> mask_dict_limited recursion_limit (DataMasker_init default_settings None)
        [(''password'', VInt (10 ^ max_str_digits))] = Inl ValueError
   \<and> wf_value (VDict (nested_record recursion_limit))
   \<and> mask_dict_limited recursion_limit (DataMasker_init default_settings None)
        (nested_record recursion_limit) = Inl RecursionError"
proof -
  have lim: "recursion_limit = Suc 999" by (simp add: recursion_limit_def)
  have on: "enabled (DataMasker_init default_settings None)"
    "should_mask (DataMasker_init default_settings None) (lower ''password'')"
    by code_simp+
  have a: "wf_value (VDict [(''password'', VInt (10 ^ max_str_digits))])" by simp
  have b: "mask_dict_limited recursion_limit (DataMasker_init default_settings None)
        [(''password'', VInt (10 ^ max_str_digits))] = Inl ValueError"
    unfolding lim by (rule mask_dict_limited_big_int [OF on])
  from a b nested_record_wf [of recursion_limit]
    nested_record_raises [of recursion_limit "DataMasker_init default_settings None"]
  show ?thesis by (intro conjI)
qed

end
